theory Spec2Isabelle
  imports Main "HOL-Library.Word"
begin

unbundle bit_operations_syntax

section \<open>Bytes and strings\<close>

text \<open>
  The application (\<^verbatim>\<open>mainwindow.cpp\<close>) moves data between three representations:
  raw byte buffers (\<^verbatim>\<open>QByteArray\<close>, \<^verbatim>\<open>SecByteBlock\<close>), byte strings used as text
  (\<^verbatim>\<open>std::string\<close>) and Qt's \<^verbatim>\<open>QString\<close>. A byte is an 8-bit word; a \<^verbatim>\<open>std::string\<close> is an
  Isabelle \<open>string\<close> (a list of 8-bit characters), so that hexadecimal text can be written
  as a literal.
\<close>

type_synonym byte = "8 word"
type_synonym w32 = "32 word"

definition byte_of_char :: "char \<Rightarrow> byte" where
  "byte_of_char c = of_nat (of_char c)"

definition char_of_byte :: "byte \<Rightarrow> char" where
  "char_of_byte b = char_of (unat b)"

text \<open>\<^verbatim>\<open>std::string origStr((const char*)inputData.constData(), inputData.size())\<close>\<close>

definition string_of_bytes :: "byte list \<Rightarrow> string" where
  "string_of_bytes bs = map char_of_byte bs"

definition bytes_of_string :: "string \<Rightarrow> byte list" where
  "bytes_of_string s = map byte_of_char s"

section \<open>The Crypto++ components used by the application\<close>

subsection \<open>HexEncoder and HexDecoder\<close>

text \<open>
  \<^verbatim>\<open>HexEncoder(attachment, uppercase = true, groupSize = 0, ...)\<close>: two digits per byte, high
  nibble first, from the alphabet \<^verbatim>\<open>0123456789ABCDEF\<close> when \<open>uppercase\<close> is set and
  \<^verbatim>\<open>0123456789abcdef\<close> otherwise. Every call in \<^verbatim>\<open>mainwindow.cpp\<close> leaves the group size at
  its default 0, so no separator is ever emitted. The calls in \<^verbatim>\<open>onGenerateKey\<close> and in the
  key generation of the HMAC branch pass no \<open>uppercase\<close> argument (the default, true); the
  digest and the MAC are encoded with \<open>uppercase = false\<close>.
\<close>

definition hex_alphabet :: "bool \<Rightarrow> string" where
  "hex_alphabet uppercase = (if uppercase then ''0123456789ABCDEF'' else ''0123456789abcdef'')"

definition HexEncoder :: "bool \<Rightarrow> byte list \<Rightarrow> string" where
  "HexEncoder uppercase bs =
     concat (map (\<lambda>b. [hex_alphabet uppercase ! (unat b div 16),
                         hex_alphabet uppercase ! (unat b mod 16)]) bs)"

text \<open>
  \<^verbatim>\<open>HexDecoder\<close>: the decoding table is case insensitive; a character outside the
  alphabet is skipped; digits are paired high nibble first, and a trailing unpaired digit
  is dropped at the end of the message.
\<close>

definition hex_lookup :: "char \<Rightarrow> nat option" where
  "hex_lookup c =
     (let n = (of_char c :: nat) in
      if 48 \<le> n \<and> n \<le> 57 then Some (n - 48)
      else if 65 \<le> n \<and> n \<le> 70 then Some (n - 55)
      else if 97 \<le> n \<and> n \<le> 102 then Some (n - 87)
      else None)"

fun pair_nibbles :: "nat list \<Rightarrow> byte list" where
  "pair_nibbles (h # l # r) = of_nat (16 * h + l) # pair_nibbles r"
| "pair_nibbles _ = []"

definition HexDecoder :: "string \<Rightarrow> byte list" where
  "HexDecoder s = pair_nibbles (List.map_filter hex_lookup s)"

subsection \<open>ArraySink, SecByteBlock and the random pool\<close>

text \<open>
  \<^verbatim>\<open>ArraySink(buf, size)\<close> copies what it receives into the buffer until the buffer is
  full and discards the rest; bytes of the buffer it does not reach keep their previous
  contents. \<open>ArraySink buf bs\<close> is the buffer after the bytes \<open>bs\<close> were sent to it.
\<close>

definition ArraySink :: "byte list \<Rightarrow> byte list \<Rightarrow> byte list" where
  "ArraySink buf bs = take (length buf) bs @ drop (length bs) buf"

text \<open>
  \<^verbatim>\<open>SecByteBlock key(n)\<close> allocates \<open>n\<close> bytes and does not initialise them. What the
  memory holds is an input of the model: \<open>uninit\<close> gives the byte found at each offset.
\<close>

definition SecByteBlock :: "(nat \<Rightarrow> byte) \<Rightarrow> nat \<Rightarrow> byte list" where
  "SecByteBlock uninit n = map uninit [0..<n]"

text \<open>
  The idiom of \<^verbatim>\<open>onProcess\<close> for reading a key:
  \<^verbatim>\<open>SecByteBlock key(n); StringSource ss(keyHex, true, new HexDecoder(new ArraySink(key, key.size())));\<close>
\<close>

definition decodeKey :: "(nat \<Rightarrow> byte) \<Rightarrow> nat \<Rightarrow> string \<Rightarrow> byte list" where
  "decodeKey uninit n keyHex = ArraySink (SecByteBlock uninit n) (HexDecoder keyHex)"

text \<open>
  \<^verbatim>\<open>AutoSeededRandomPool\<close>: the entropy is an input of the model, an unbounded stream of
  bytes; \<^verbatim>\<open>GenerateBlock(buf, n)\<close> takes the next \<open>n\<close> bytes and leaves the rest.
\<close>

type_synonym entropy = "nat \<Rightarrow> byte"

definition GenerateBlock :: "entropy \<Rightarrow> nat \<Rightarrow> byte list \<times> entropy" where
  "GenerateBlock rng n = (map rng [0..<n], \<lambda>i. rng (i + n))"

subsection \<open>SHA-256 and HMAC-SHA256\<close>

text \<open>
  \<^verbatim>\<open>CryptoPP::SHA256\<close> computes the SHA-256 function of FIPS 180-4, written out here:
  32-bit words, big-endian; the message is padded with the byte 0x80, zeros up to 56
  modulo 64 and its length in bits as a 64-bit integer.
\<close>

definition rotr :: "nat \<Rightarrow> w32 \<Rightarrow> w32" where
  "rotr n x = drop_bit n x OR push_bit (32 - n) x"

definition Ch :: "w32 \<Rightarrow> w32 \<Rightarrow> w32 \<Rightarrow> w32" where
  "Ch x y z = (x AND y) XOR (NOT x AND z)"

definition Maj :: "w32 \<Rightarrow> w32 \<Rightarrow> w32 \<Rightarrow> w32" where
  "Maj x y z = (x AND y) XOR (x AND z) XOR (y AND z)"

definition Sigma0 :: "w32 \<Rightarrow> w32" where
  "Sigma0 x = rotr 2 x XOR rotr 13 x XOR rotr 22 x"

definition Sigma1 :: "w32 \<Rightarrow> w32" where
  "Sigma1 x = rotr 6 x XOR rotr 11 x XOR rotr 25 x"

definition sigma0 :: "w32 \<Rightarrow> w32" where
  "sigma0 x = rotr 7 x XOR rotr 18 x XOR drop_bit 3 x"

definition sigma1 :: "w32 \<Rightarrow> w32" where
  "sigma1 x = rotr 17 x XOR rotr 19 x XOR drop_bit 10 x"

definition K256 :: "w32 list" where
  "K256 = [
  0x428A2F98, 0x71374491, 0xB5C0FBCF, 0xE9B5DBA5, 0x3956C25B, 0x59F111F1, 0x923F82A4, 0xAB1C5ED5,
  0xD807AA98, 0x12835B01, 0x243185BE, 0x550C7DC3, 0x72BE5D74, 0x80DEB1FE, 0x9BDC06A7, 0xC19BF174,
  0xE49B69C1, 0xEFBE4786, 0x0FC19DC6, 0x240CA1CC, 0x2DE92C6F, 0x4A7484AA, 0x5CB0A9DC, 0x76F988DA,
  0x983E5152, 0xA831C66D, 0xB00327C8, 0xBF597FC7, 0xC6E00BF3, 0xD5A79147, 0x06CA6351, 0x14292967,
  0x27B70A85, 0x2E1B2138, 0x4D2C6DFC, 0x53380D13, 0x650A7354, 0x766A0ABB, 0x81C2C92E, 0x92722C85,
  0xA2BFE8A1, 0xA81A664B, 0xC24B8B70, 0xC76C51A3, 0xD192E819, 0xD6990624, 0xF40E3585, 0x106AA070,
  0x19A4C116, 0x1E376C08, 0x2748774C, 0x34B0BCB5, 0x391C0CB3, 0x4ED8AA4A, 0x5B9CCA4F, 0x682E6FF3,
  0x748F82EE, 0x78A5636F, 0x84C87814, 0x8CC70208, 0x90BEFFFA, 0xA4506CEB, 0xBEF9A3F7, 0xC67178F2]"

definition H256 :: "w32 list" where
  "H256 = [0x6A09E667, 0xBB67AE85, 0x3C6EF372, 0xA54FF53A,
           0x510E527F, 0x9B05688C, 0x1F83D9AB, 0x5BE0CD19]"

definition be32 :: "byte \<Rightarrow> byte \<Rightarrow> byte \<Rightarrow> byte \<Rightarrow> w32" where
  "be32 a b c d =
     push_bit 24 (ucast a) OR push_bit 16 (ucast b) OR push_bit 8 (ucast c) OR ucast d"

fun words_of :: "byte list \<Rightarrow> w32 list" where
  "words_of (a # b # c # d # r) = be32 a b c d # words_of r"
| "words_of _ = []"

definition bytes_of32 :: "w32 \<Rightarrow> byte list" where
  "bytes_of32 w = [ucast (drop_bit 24 w), ucast (drop_bit 16 w), ucast (drop_bit 8 w), ucast w]"

definition bytes_of64 :: "64 word \<Rightarrow> byte list" where
  "bytes_of64 w = map (\<lambda>i. ucast (drop_bit (8 * (7 - i)) w)) [0..<8]"

definition sha_pad :: "byte list \<Rightarrow> byte list" where
  "sha_pad m =
     m @ [0x80] @ replicate ((119 - length m mod 64) mod 64) 0
       @ bytes_of64 (of_nat (8 * length m))"

text \<open>The message schedule: the 16 words of a block extended, one word at a time, to 64.\<close>

fun schedule :: "nat \<Rightarrow> w32 list \<Rightarrow> w32 list" where
  "schedule 0 ws = ws"
| "schedule (Suc n) ws =
     schedule n (ws @ [sigma1 (ws ! (length ws - 2)) + ws ! (length ws - 7)
                       + sigma0 (ws ! (length ws - 15)) + ws ! (length ws - 16)])"

fun round256 :: "w32 list \<Rightarrow> w32 \<times> w32 \<Rightarrow> w32 list" where
  "round256 [a, b, c, d, e, f, g, h] (k, w) =
     (let t1 = h + Sigma1 e + Ch e f g + k + w;
          t2 = Sigma0 a + Maj a b c
      in [t1 + t2, a, b, c, d + t1, e, f, g])"
| "round256 s _ = s"

definition compress :: "w32 list \<Rightarrow> w32 list \<Rightarrow> w32 list" where
  "compress h blk = map2 (+) h (foldl round256 h (zip K256 (schedule 48 blk)))"

fun blocks :: "nat \<Rightarrow> 'a list \<Rightarrow> 'a list list" where
  "blocks n [] = []"
| "blocks n xs = (if n = 0 then [xs] else take n xs # blocks n (drop n xs))"

definition sha256 :: "byte list \<Rightarrow> byte list" where
  "sha256 m = concat (map bytes_of32 (foldl compress H256 (blocks 16 (words_of (sha_pad m)))))"

text \<open>
  \<^verbatim>\<open>HMAC<SHA256>\<close> (RFC 2104): a key longer than the 64-byte block of the hash is hashed
  first; the key is filled with zeros to 64 bytes and combined with the constants 0x36 and
  0x5c.
\<close>

definition hmac_key_block :: "byte list \<Rightarrow> byte list" where
  "hmac_key_block key =
     (let k = (if length key > 64 then sha256 key else key)
      in k @ replicate (64 - length k) 0)"

definition HMAC_SHA256 :: "byte list \<Rightarrow> byte list \<Rightarrow> byte list" where
  "HMAC_SHA256 key msg =
     (let kb = hmac_key_block key
      in sha256 (map (\<lambda>b. b XOR 0x5c) kb @ sha256 (map (\<lambda>b. b XOR 0x36) kb @ msg)))"

text \<open>The helper of \<^verbatim>\<open>mainwindow.cpp\<close>: the raw 32-byte MAC as a \<^verbatim>\<open>std::string\<close>.\<close>

definition computeHmacSha256 :: "byte list \<Rightarrow> byte list \<Rightarrow> string" where
  "computeHmacSha256 data hmacKey = string_of_bytes (HMAC_SHA256 hmacKey data)"

text \<open>
  The other helper, \<^verbatim>\<open>constantTimeEqual\<close>: false at once when the sizes differ, otherwise
  the differences of all positions are accumulated with OR and compared with 0 at the end.
\<close>

fun diff_loop :: "byte \<Rightarrow> (char \<times> char) list \<Rightarrow> byte" where
  "diff_loop diff [] = diff"
| "diff_loop diff ((x, y) # r) = diff_loop (diff OR (byte_of_char x XOR byte_of_char y)) r"

definition constantTimeEqual :: "string \<Rightarrow> string \<Rightarrow> bool" where
  "constantTimeEqual a b = (if length a \<noteq> length b then False else diff_loop 0 (zip a b) = 0)"

subsection \<open>AES in CBC mode with PKCS padding\<close>

text \<open>
  What can go wrong in \<^verbatim>\<open>onProcess\<close>. The first four are Crypto++ exceptions, caught by
  the handlers at the end of \<^verbatim>\<open>onProcess\<close>: \<^verbatim>\<open>InvalidKeyLength\<close> and the invalid IV length
  are raised by \<^verbatim>\<open>SetKeyWithIV\<close>, and \<^verbatim>\<open>StreamTransformationFilter\<close> raises
  \<^verbatim>\<open>InvalidCiphertext\<close> with the message "ciphertext length is not a multiple of block
  size" (\<open>InvalidCiphertextLength\<close>) or "invalid PKCS #7 block padding found"
  (\<open>PaddingError\<close>). The others are the early returns of \<^verbatim>\<open>onProcess\<close>.
\<close>

datatype error =
    InvalidKeyLength
  | InvalidIvLength
  | InvalidCiphertextLength
  | PaddingError
  | NoInputFile
  | IoFailure
  | TooShort
  | MissingKey
  | Unimplemented

text \<open>
  The block cipher \<^verbatim>\<open>CryptoPP::AES\<close> is a parameter of the model: a pair of functions from
  a key and a 16-byte block to a block. \<open>cipher_ok\<close> says what CBC relies on: blocks stay
  16 bytes long and decryption inverts encryption under the same key.
\<close>

record cipher =
  encryptBlock :: "byte list \<Rightarrow> byte list \<Rightarrow> byte list"
  decryptBlock :: "byte list \<Rightarrow> byte list \<Rightarrow> byte list"

definition cipher_ok :: "cipher \<Rightarrow> bool" where
  "cipher_ok c \<longleftrightarrow>
     (\<forall>k b. length b = 16 \<longrightarrow>
        length (encryptBlock c k b) = 16 \<and> length (decryptBlock c k b) = 16 \<and>
        decryptBlock c k (encryptBlock c k b) = b)"

text \<open>
  \<^verbatim>\<open>SetKeyWithIV(key, key.size(), iv, iv.size())\<close>: the key is checked first (16, 24 or
  32 bytes), then the IV (exactly one block).
\<close>

definition SetKeyWithIV :: "byte list \<Rightarrow> byte list \<Rightarrow> error option" where
  "SetKeyWithIV key iv =
     (if length key \<noteq> 16 \<and> length key \<noteq> 24 \<and> length key \<noteq> 32 then Some InvalidKeyLength
      else if length iv \<noteq> 16 then Some InvalidIvLength
      else None)"

definition xor_bytes :: "byte list \<Rightarrow> byte list \<Rightarrow> byte list" where
  "xor_bytes a b = map2 (XOR) a b"

fun cbc_encrypt_blocks :: "(byte list \<Rightarrow> byte list) \<Rightarrow> byte list \<Rightarrow> byte list list \<Rightarrow> byte list list" where
  "cbc_encrypt_blocks E prev [] = []"
| "cbc_encrypt_blocks E prev (p # ps) =
     (let c = E (xor_bytes p prev) in c # cbc_encrypt_blocks E c ps)"

fun cbc_decrypt_blocks :: "(byte list \<Rightarrow> byte list) \<Rightarrow> byte list \<Rightarrow> byte list list \<Rightarrow> byte list list" where
  "cbc_decrypt_blocks D prev [] = []"
| "cbc_decrypt_blocks D prev (c # cs) = xor_bytes (D c) prev # cbc_decrypt_blocks D c cs"

text \<open>
  \<^verbatim>\<open>StreamTransformationFilter(e, sink, PKCS_PADDING)\<close>, encrypting: the full blocks are
  encrypted as they come; the rest of the input, \<open>length < 16\<close> bytes (possibly none), is
  filled up to a block with the byte \<open>16 - length\<close>.
\<close>

definition pkcs_pad :: "byte list \<Rightarrow> byte list" where
  "pkcs_pad m = m @ replicate (16 - length m mod 16) (of_nat (16 - length m mod 16))"

definition CBC_Encryption :: "cipher \<Rightarrow> byte list \<Rightarrow> byte list \<Rightarrow> byte list \<Rightarrow> error + byte list" where
  "CBC_Encryption c key iv plain =
     (case SetKeyWithIV key iv of
        Some e \<Rightarrow> Inl e
      | None \<Rightarrow> Inr (concat (cbc_encrypt_blocks (encryptBlock c key) iv (blocks 16 (pkcs_pad plain)))))"

text \<open>
  Decrypting: what is left for the last call must be exactly one block
  (\<^verbatim>\<open>if (length != s) throw InvalidCiphertext(...)\<close>), which excludes the empty input and
  every length that is not a multiple of 16. The last block is decrypted and its last
  byte \<open>pad\<close> is read: \<^verbatim>\<open>if (pad < 1 || pad > s || \<close>one of the last \<open>pad\<close> bytes differs
  from \<open>pad\<close>\<^verbatim>\<open>) throw InvalidCiphertext(...)\<close>; otherwise the last \<open>pad\<close> bytes are removed.
\<close>

definition pkcs_unpad :: "byte list \<Rightarrow> error + byte list" where
  "pkcs_unpad blk =
     (let pad = last blk in
      if pad < 1 \<or> pad > 16 \<or> \<not> list_all (\<lambda>b. b = pad) (drop (16 - unat pad) blk)
      then Inl PaddingError
      else Inr (take (16 - unat pad) blk))"

definition CBC_Decryption :: "cipher \<Rightarrow> byte list \<Rightarrow> byte list \<Rightarrow> byte list \<Rightarrow> error + byte list" where
  "CBC_Decryption c key iv ct =
     (case SetKeyWithIV key iv of
        Some e \<Rightarrow> Inl e
      | None \<Rightarrow>
          if ct = [] \<or> length ct mod 16 \<noteq> 0 then Inl InvalidCiphertextLength
          else
            (let ps = cbc_decrypt_blocks (decryptBlock c key) iv (blocks 16 ct) in
             case pkcs_unpad (last ps) of
               Inl e \<Rightarrow> Inl e
             | Inr r \<Rightarrow> Inr (concat (butlast ps) @ r)))"

section \<open>The Qt text types\<close>

text \<open>
  \<^verbatim>\<open>QString\<close> and the conversions the application calls are parameters of the model:
  \<open>'q\<close> is the type of Qt strings, and a record holds the functions used by
  \<^verbatim>\<open>mainwindow.cpp\<close>. Nothing is assumed about them.
  \<^item> \<open>fromUtf8\<close>: \<^verbatim>\<open>QString::fromUtf8(const QByteArray&)\<close>;
  \<^item> \<open>fromStdString\<close>: \<^verbatim>\<open>QString::fromStdString\<close>, and the conversion of a string literal;
  \<^item> \<open>fromUtf16\<close>: \<^verbatim>\<open>QString::fromUtf16(u16, size / 2)\<close> on the bytes of a buffer of even size;
  \<^item> \<open>toUtf8\<close>: \<^verbatim>\<open>QString::toUtf8\<close>;
  \<^item> \<open>left\<close>: \<^verbatim>\<open>QString::left(n)\<close>;
  \<^item> \<open>toPlainText\<close>: what \<^verbatim>\<open>outputText->toPlainText()\<close> returns for the text last given
    to \<^verbatim>\<open>outputText->setPlainText\<close>;
  \<^item> \<open>isEmpty\<close>: \<^verbatim>\<open>QString::isEmpty\<close>.
  The texts of the two key fields are only ever read with \<^verbatim>\<open>text().isEmpty()\<close> and
  \<^verbatim>\<open>text().toStdString()\<close> and written with \<^verbatim>\<open>setText(QString::fromStdString(hex))\<close>: they
  are kept as \<^verbatim>\<open>std::string\<close>s.
\<close>

record 'q qt =
  fromUtf8 :: "byte list \<Rightarrow> 'q"
  fromStdString :: "string \<Rightarrow> 'q"
  fromUtf16 :: "byte list \<Rightarrow> 'q"
  toUtf8 :: "'q \<Rightarrow> byte list"
  left :: "nat \<Rightarrow> 'q \<Rightarrow> 'q"
  toPlainText :: "'q \<Rightarrow> 'q"
  isEmpty :: "'q \<Rightarrow> bool"

text \<open>\<^verbatim>\<open>QString("... %1 ...").arg(n)\<close> for a size \<open>n\<close>: the decimal digits of \<open>n\<close>.\<close>

fun decimal :: "nat \<Rightarrow> string" where
  "decimal n = (if n < 10 then [char_of (48 + n)] else decimal (n div 10) @ [char_of (48 + n mod 10)])"

declare decimal.simps [simp del]

section \<open>The window and its state\<close>

datatype LastAction = None_LA | GeneratedKey | ProcessedData | ShaOrHmacText

text \<open>The status line: a message of the application, or the report of a caught exception.\<close>

datatype status = Status string | CryptoError error

text \<open>
  The fields of \<^verbatim>\<open>MainWindow\<close> (\<^verbatim>\<open>mainwindow.h\<close>) that the handlers read or write; each
  widget is represented by what it shows. The three sizes are read from
  \<^verbatim>\<open>config.json\<close> when the window is built (defaults 32, 16, 32); they are natural
  numbers here, a negative size in the configuration is not modelled.
\<close>

record 'q session =
  inputFilePath :: string
  processedData :: "byte list"
  aesKeyBytes :: nat
  aesIvBytes :: nat
  hmacKeyBytes :: nat
  lastOutputIsText :: bool
  lastTextOutput :: 'q
  lastGeneratedSymKeyHex :: string
  lastGeneratedHmacKeyHex :: string
  lastAction :: LastAction
  opCombo :: string
  keyHexEdit :: string
  hmacKeyEdit :: string
  progressBar :: nat
  statusLabel :: status
  outputText :: 'q

text \<open>
  What a handler receives from outside the window: the content of the input file
  (\<open>None\<close> when \<^verbatim>\<open>readFileToByteArray\<close> fails), the entropy of the random pools, and the
  content of freshly allocated memory.
\<close>

record env =
  fileContent :: "byte list option"
  entropy :: entropy
  uninit :: "nat \<Rightarrow> byte"

subsection \<open>onUpload\<close>

definition onUpload :: "'q qt \<Rightarrow> string \<Rightarrow> 'q session \<Rightarrow> 'q session" where
  "onUpload q file s =
     (if file = [] then s
      else s\<lparr>inputFilePath := file,
              statusLabel := Status (''Selected: '' @ file),
              progressBar := 0,
              outputText := fromStdString q [],
              processedData := [],
              lastOutputIsText := False,
              lastTextOutput := fromStdString q [],
              lastAction := None_LA\<rparr>)"

subsection \<open>onGenerateKey\<close>

definition onGenerateKey :: "'q qt \<Rightarrow> entropy \<Rightarrow> 'q session \<Rightarrow> 'q session" where
  "onGenerateKey q rng s =
     (let (symKey, rng1) = GenerateBlock rng (aesKeyBytes s);
          symHex = HexEncoder True symKey;
          (hmacKey, rng2) = GenerateBlock rng1 (hmacKeyBytes s);
          hmacHex = HexEncoder True hmacKey
      in s\<lparr>keyHexEdit := symHex,
             hmacKeyEdit := hmacHex,
             lastGeneratedSymKeyHex := symHex,
             lastGeneratedHmacKeyHex := hmacHex,
             lastAction := GeneratedKey,
             processedData := [],
             lastOutputIsText := False,
             lastTextOutput := fromStdString q [],
             statusLabel := Status ''Generated symmetric key and HMAC key (shown in hex)'',
             outputText := fromStdString q
               ''Symmetric and HMAC keys generated. Click Download to save the key pair.''\<rparr>)"

subsection \<open>onProcess\<close>

text \<open>
  The zero-counting loop of the UTF-16 check:
  \<^verbatim>\<open>for (int i = 1; i < limit; i += 2) if (processedData[i] == '\0') ++zeros;\<close>
\<close>

function zerosLoop :: "byte list \<Rightarrow> nat \<Rightarrow> nat \<Rightarrow> nat \<Rightarrow> nat" where
  "zerosLoop d limit i zeros =
     (if i < limit then zerosLoop d limit (i + 2) (if d ! i = 0 then zeros + 1 else zeros)
      else zeros)"
  by pat_completeness auto
termination
  by (relation "measure (\<lambda>(d, limit, i, zeros). limit - i)") auto

declare zerosLoop.simps [simp del]

definition looksUtf16Le :: "byte list \<Rightarrow> bool" where
  "looksUtf16Le d =
     (if length d \<ge> 2 then
        (if d ! 0 = 0xFF \<and> d ! 1 = 0xFE then True
         else zerosLoop d (min (length d - 1) 200) 1 0 > 3)
      else False)"

text \<open>
  The text detection of the decryption branch (lines 397 to 431), on the state in which
  \<open>processedData\<close> already holds the recovered bytes.
\<close>

definition detectText :: "'q qt \<Rightarrow> 'q session \<Rightarrow> 'q session" where
  "detectText q s0 =
     (let s = s0\<lparr>lastOutputIsText := False, lastTextOutput := fromStdString q []\<rparr>;
          d = processedData s
      in if d \<noteq> [] then
           (let maybeUtf8 = fromUtf8 q d in
            if toUtf8 q maybeUtf8 = d then
              s\<lparr>lastOutputIsText := True,
                 lastTextOutput := maybeUtf8,
                 outputText := left q 10000 maybeUtf8\<rparr>
            else if looksUtf16Le d \<and> length d mod 2 = 0 then
              s\<lparr>lastTextOutput := fromUtf16 q d,
                 lastOutputIsText := True,
                 outputText := left q 10000 (fromUtf16 q d)\<rparr>
            else
              s\<lparr>outputText := fromStdString q
                   (''Decryption successful. Plaintext size: '' @ decimal (length d) @ '' bytes'')\<rparr>)
         else s\<lparr>outputText := fromStdString q ''Decryption produced empty output''\<rparr>)"

text \<open>
  A Crypto++ exception leaves the \<^verbatim>\<open>try\<close> block with the state as it is at that point;
  the handler only writes the status line.
\<close>

definition caught :: "error \<Rightarrow> 'q session \<Rightarrow> error option \<times> 'q session" where
  "caught e s = (Some e, s\<lparr>statusLabel := CryptoError e\<rparr>)"

text \<open>
  The start of the encryption branch: when the key field is empty, \<^verbatim>\<open>onGenerateKey()\<close> is
  called. The result is the state after that and the entropy left for the pool created
  next.
\<close>

definition ensureKey :: "'q qt \<Rightarrow> env \<Rightarrow> 'q session \<Rightarrow> 'q session \<times> entropy" where
  "ensureKey q e s =
     (if keyHexEdit s = []
      then (onGenerateKey q (entropy e) s,
            snd (GenerateBlock (snd (GenerateBlock (entropy e) (aesKeyBytes s))) (hmacKeyBytes s)))
      else (s, entropy e))"

definition processEncrypt :: "cipher \<Rightarrow> 'q qt \<Rightarrow> env \<Rightarrow> byte list \<Rightarrow> 'q session \<Rightarrow> error option \<times> 'q session" where
  "processEncrypt c q e inputData s0 =
     (let (s, rng) = ensureKey q e s0;
          key = decodeKey (uninit e) (aesKeyBytes s) (keyHexEdit s);
          iv = fst (GenerateBlock rng (aesIvBytes s))
      in case CBC_Encryption c key iv inputData of
           Inl err \<Rightarrow> caught err s
         | Inr ciphertext \<Rightarrow>
             (let pd = iv @ ciphertext in
              (None, s\<lparr>processedData := pd,
                        outputText := fromStdString q
                          (''Encryption successful. Ciphertext size (IV + ciphertext): ''
                             @ decimal (length pd) @ '' bytes''),
                        statusLabel := Status ''Encryption done (no HMAC)'',
                        progressBar := 100,
                        lastAction := ProcessedData,
                        lastOutputIsText := False\<rparr>)))"

definition processDecrypt :: "cipher \<Rightarrow> 'q qt \<Rightarrow> env \<Rightarrow> byte list \<Rightarrow> 'q session \<Rightarrow> error option \<times> 'q session" where
  "processDecrypt c q e inputData s =
     (if length inputData < aesIvBytes s then
        (Some TooShort, s\<lparr>statusLabel := Status ''Input too small to contain IV''\<rparr>)
      else
        (let ivBytes = take (aesIvBytes s) inputData;
             cipherOnly = drop (aesIvBytes s) inputData
         in if keyHexEdit s = [] then (Some MissingKey, s)
            else
              (let key = decodeKey (uninit e) (aesKeyBytes s) (keyHexEdit s) in
               case CBC_Decryption c key ivBytes cipherOnly of
                 Inl err \<Rightarrow> caught err s
               | Inr recovered \<Rightarrow>
                   (None, (detectText q (s\<lparr>processedData := recovered\<rparr>))
                            \<lparr>statusLabel := Status ''Decryption done'',
                             progressBar := 100,
                             lastAction := ProcessedData\<rparr>))))"

definition processDigest :: "'q qt \<Rightarrow> byte list \<Rightarrow> 'q session \<Rightarrow> error option \<times> 'q session" where
  "processDigest q inputData s =
     (let digest = HexEncoder False (sha256 inputData);
          shown = fromStdString q digest
      in (None, s\<lparr>outputText := shown,
                   processedData := [],
                   statusLabel := Status ''SHA-256 generated'',
                   progressBar := 100,
                   lastAction := ShaOrHmacText,
                   lastOutputIsText := True,
                   lastTextOutput := toPlainText q shown\<rparr>))"

text \<open>The key of the HMAC branch, with the state after a key had to be generated.\<close>

definition resolveHmacKey :: "env \<Rightarrow> 'q session \<Rightarrow> byte list \<times> 'q session" where
  "resolveHmacKey e s =
     (if hmacKeyEdit s \<noteq> [] then (decodeKey (uninit e) (hmacKeyBytes s) (hmacKeyEdit s), s)
      else if keyHexEdit s \<noteq> [] then (decodeKey (uninit e) (hmacKeyBytes s) (keyHexEdit s), s)
      else
        (let hmacKey = fst (GenerateBlock (entropy e) (hmacKeyBytes s));
             hexOut = HexEncoder True hmacKey
         in (hmacKey, s\<lparr>hmacKeyEdit := hexOut, lastGeneratedHmacKeyHex := hexOut\<rparr>)))"

definition processHmac :: "'q qt \<Rightarrow> env \<Rightarrow> byte list \<Rightarrow> 'q session \<Rightarrow> error option \<times> 'q session" where
  "processHmac q e inputData s0 =
     (let (hmacKey, s) = resolveHmacKey e s0;
          mac = HMAC_SHA256 hmacKey inputData;
          macHex = HexEncoder False mac;
          origStr = string_of_bytes inputData;
          combinedText = origStr @ macHex;
          shown = fromStdString q combinedText
      in (None, s\<lparr>processedData := inputData @ mac,
                   outputText := shown,
                   statusLabel := Status ''HMAC-SHA256 generated and appended'',
                   progressBar := 100,
                   lastAction := ShaOrHmacText,
                   lastOutputIsText := True,
                   lastTextOutput := toPlainText q shown\<rparr>))"

text \<open>
  The handler returns nothing; the model returns, beside the new state, how the call
  ended: \<open>None\<close> when the selected operation was carried out, \<open>Some e\<close> when it was not.
\<close>

definition onProcess :: "cipher \<Rightarrow> 'q qt \<Rightarrow> env \<Rightarrow> 'q session \<Rightarrow> error option \<times> 'q session" where
  "onProcess c q e s =
     (if opCombo s = ''Generate Symmetric Key'' then (None, onGenerateKey q (entropy e) s)
      else if inputFilePath s = [] then (Some NoInputFile, s)
      else
        (case fileContent e of
           None \<Rightarrow> (Some IoFailure, s\<lparr>statusLabel := Status ''Failed to read input file''\<rparr>)
         | Some inputData \<Rightarrow>
             (let s1 = s\<lparr>progressBar := 10\<rparr>; op = opCombo s in
              if op = ''AES Encrypt (file)'' then processEncrypt c q e inputData s1
              else if op = ''AES Decrypt (file)'' then processDecrypt c q e inputData s1
              else if op = ''SHA-256 Digest (file)'' then processDigest q inputData s1
              else if op = ''HMAC-SHA256 (file)'' then processHmac q e inputData s1
              else (Some Unimplemented,
                    s1\<lparr>statusLabel := Status ''Operation not implemented yet''\<rparr>))))"

subsection \<open>onDownload\<close>

text \<open>
  \<^verbatim>\<open>QFileInfo(file).suffix()\<close>: what follows the last dot of the file name, the part of
  the path after the last slash.
\<close>

definition suffix_of :: "string \<Rightarrow> string" where
  "suffix_of file =
     (let name = rev (takeWhile (\<lambda>c. c \<noteq> CHR ''/'') (rev file))
      in if CHR ''.'' \<in> set name then rev (takeWhile (\<lambda>c. c \<noteq> CHR ''.'') (rev name)) else [])"

text \<open>
  \<open>file\<close> is the path returned by the save dialog (empty when the user cancels) and
  \<open>canWrite\<close> tells whether the file can be opened and written in full. The result is
  the path and the bytes written, if a file is written, and the new state. The key pair
  is written through a \<^verbatim>\<open>QTextStream\<close>; its bytes are those of the \<^verbatim>\<open>std::string\<close>s.
\<close>

definition onDownload :: "'q qt \<Rightarrow> string \<Rightarrow> bool \<Rightarrow> 'q session \<Rightarrow> (string \<times> byte list) option \<times> 'q session" where
  "onDownload q file canWrite s =
     (if lastAction s = GeneratedKey then
        (if file = [] then (None, s)
         else if \<not> canWrite then (None, s\<lparr>statusLabel := Status ''Failed to save key pair''\<rparr>)
         else
           (Some (file, bytes_of_string
                    (''symmetric_key_hex:''
                       @ (if lastGeneratedSymKeyHex s = [] then keyHexEdit s else lastGeneratedSymKeyHex s)
                       @ [CHR 0x0A] @ ''hmac_key_hex:''
                       @ (if lastGeneratedHmacKeyHex s = [] then hmacKeyEdit s else lastGeneratedHmacKeyHex s)
                       @ [CHR 0x0A])),
            s\<lparr>statusLabel := Status (''Saved key pair '' @ file)\<rparr>))
      else if processedData s = [] \<and> isEmpty q (toPlainText q (outputText s)) then (None, s)
      else if file = [] then (None, s)
      else
        (let file1 = (if lastOutputIsText s \<and> suffix_of file = [] then file @ ''.txt'' else file) in
         if processedData s \<noteq> [] then
           (if lastOutputIsText s then
              (if \<not> canWrite then (None, s\<lparr>statusLabel := Status ''Failed to save text output''\<rparr>)
               else (Some (file1, toUtf8 q (lastTextOutput s)),
                     s\<lparr>statusLabel := Status (''Saved text '' @ file1)\<rparr>))
            else
              (if \<not> canWrite then (None, s\<lparr>statusLabel := Status ''Failed to save output file''\<rparr>)
               else (Some (file1, processedData s),
                     s\<lparr>statusLabel := Status (''Saved '' @ file1)\<rparr>)))
         else
           (if \<not> canWrite then (None, s\<lparr>statusLabel := Status ''Failed to save text output''\<rparr>)
            else (Some (file1, toUtf8 q (toPlainText q (outputText s))),
                  s\<lparr>statusLabel := Status (''Saved text '' @ file1)\<rparr>))))"

section \<open>The content classification as the specification words it\<close>





section \<open>Concrete instances for running the model\<close>

text \<open>
  To evaluate the handlers on concrete inputs the parameters need values. \<open>toy_cipher\<close>
  is a block cipher in the sense of \<open>cipher_ok\<close> (it is not AES). \<open>ascii_qt\<close> keeps a
  Qt string as a \<^verbatim>\<open>std::string\<close>: it agrees with Qt on ASCII text and replaces every other
  byte by a question mark when decoding.
\<close>

definition toy_cipher :: cipher where
  "toy_cipher = \<lparr>encryptBlock = (\<lambda>k b. rev (map (\<lambda>x. x + 1) b)),
                  decryptBlock = (\<lambda>k b. map (\<lambda>x. x - 1) (rev b))\<rparr>"

fun even_bytes :: "byte list \<Rightarrow> byte list" where
  "even_bytes (a # b # r) = a # even_bytes r"
| "even_bytes r = r"

definition ascii_decode :: "byte list \<Rightarrow> string" where
  "ascii_decode bs = map (\<lambda>b. if b < 0x80 then char_of_byte b else CHR ''?'') bs"

definition ascii_qt :: "string qt" where
  "ascii_qt = \<lparr>fromUtf8 = ascii_decode,
               fromStdString = (\<lambda>s. s),
               fromUtf16 = (\<lambda>bs. ascii_decode (even_bytes bs)),
               toUtf8 = bytes_of_string,
               left = take,
               toPlainText = (\<lambda>t. t),
               isEmpty = (\<lambda>t. t = [])\<rparr>"

text \<open>
  The window as its constructor leaves it, with the default sizes of \<^verbatim>\<open>mainwindow.h\<close>.
\<close>

definition initial :: "'q qt \<Rightarrow> 'q session" where
  "initial q = \<lparr>inputFilePath = [],
                processedData = [],
                aesKeyBytes = 32,
                aesIvBytes = 16,
                hmacKeyBytes = 32,
                lastOutputIsText = False,
                lastTextOutput = fromStdString q [],
                lastGeneratedSymKeyHex = [],
                lastGeneratedHmacKeyHex = [],
                lastAction = None_LA,
                opCombo = ''Generate Symmetric Key'',
                keyHexEdit = [],
                hmacKeyEdit = [],
                progressBar = 0,
                statusLabel = Status ''Idle'',
                outputText = fromStdString q []\<rparr>"

text \<open>
  A run of the encryption: the file holds the five bytes of "hello", the key field a
  32-byte key in hex, and the sizes are the defaults.
\<close>

definition hello_session :: "string session" where
  "hello_session = (initial ascii_qt)
     \<lparr>inputFilePath := ''hello.txt'', opCombo := ''AES Encrypt (file)'',
      keyHexEdit := ''000102030405060708090a0b0c0d0e0f101112131415161718191a1b1c1d1e1f''\<rparr>"

definition hello_env :: env where
  "hello_env = \<lparr>fileContent = Some (bytes_of_string ''hello''),
                entropy = (\<lambda>i. of_nat i), uninit = (\<lambda>i. 0)\<rparr>"

text \<open>
  Runs of the decryption with the same key: on a file of \<open>n\<close> zero bytes.
\<close>

definition decrypt_session :: "string session" where
  "decrypt_session = hello_session\<lparr>opCombo := ''AES Decrypt (file)''\<rparr>"

definition zeros_env :: "nat \<Rightarrow> env" where
  "zeros_env n = \<lparr>fileContent = Some (replicate n 0), entropy = (\<lambda>i. of_nat i), uninit = (\<lambda>i. 0)\<rparr>"


text \<open>
  A window whose \<^verbatim>\<open>config.json\<close> sets \<^verbatim>\<open>aes_key_bytes\<close> to 20, after a file was chosen
  and its digest computed; then the encryption is selected, the key field being empty.
\<close>

definition after_digest :: "string session" where
  "after_digest =
     snd (onProcess toy_cipher ascii_qt hello_env
            ((initial ascii_qt)\<lparr>inputFilePath := ''hello.txt'', aesKeyBytes := 20,
                                 opCombo := ''SHA-256 Digest (file)''\<rparr>))"

definition encrypt_after_digest :: "string session" where
  "encrypt_after_digest = after_digest\<lparr>opCombo := ''AES Encrypt (file)''\<rparr>"

text \<open>The HMAC and the digest of "hello", and the digest of an empty file.\<close>

definition mac_session :: "string session" where
  "mac_session = hello_session\<lparr>opCombo := ''HMAC-SHA256 (file)''\<rparr>"

definition digest_session :: "string session" where
  "digest_session = hello_session\<lparr>opCombo := ''SHA-256 Digest (file)''\<rparr>"

definition empty_env :: env where
  "empty_env = \<lparr>fileContent = Some [], entropy = (\<lambda>i. of_nat i), uninit = (\<lambda>i. 0)\<rparr>"

text \<open>Entropy that yields the byte AB forever.\<close>

definition ab_entropy :: entropy where
  "ab_entropy = (\<lambda>i. 0xAB)"

text \<open>
  Decryption runs under \<open>toy_cipher\<close>: a file that is the encryption of the empty input
  with the IV zero (one block of padding), a file that decrypts to the four bytes
  FF FE 41 00, and the encryption of "hello" computed by the run above.
\<close>

definition file_env :: "byte list \<Rightarrow> env" where
  "file_env bs = \<lparr>fileContent = Some bs, entropy = (\<lambda>i. of_nat i), uninit = (\<lambda>i. 0)\<rparr>"


definition encrypted_bom :: "byte list" where
  "encrypted_bom = replicate 16 0 @ replicate 12 0x0D @ [0x01, 0x42, 0xFF, 0x00]"

definition encrypted_hello :: "byte list" where
  "encrypted_hello = processedData (snd (onProcess toy_cipher ascii_qt hello_env hello_session))"

section \<open>Two notions of the specification\<close>



text \<open>
  The key of the HMAC operation as the specification prescribes it (section 4.8): the HMAC
  key field when it is not empty, else the symmetric key field when it is not empty, else
  freshly generated bytes.
\<close>

definition mac_key :: "env \<Rightarrow> 'q session \<Rightarrow> byte list" where
  "mac_key e s =
     (if hmacKeyEdit s \<noteq> [] then decodeKey (uninit e) (hmacKeyBytes s) (hmacKeyEdit s)
      else if keyHexEdit s \<noteq> [] then decodeKey (uninit e) (hmacKeyBytes s) (keyHexEdit s)
      else fst (GenerateBlock (entropy e) (hmacKeyBytes s)))"

text \<open>
  The session state of the specification: the four fields that the export in
  \<^verbatim>\<open>onDownload\<close> depends on.
\<close>

definition session_state :: "'q session \<Rightarrow> byte list \<times> bool \<times> 'q \<times> LastAction" where
  "session_state s = (processedData s, lastOutputIsText s, lastTextOutput s, lastAction s)"

section \<open>Properties of the encoders and of the hash\<close>

lemma length_HexEncoder: "length (HexEncoder u bs) = 2 * length bs"
  unfolding HexEncoder_def by (induction bs) auto

lemma hex_digit_lower: "n < 16 \<Longrightarrow> hex_alphabet False ! n \<in> set ''0123456789abcdef''"
  unfolding hex_alphabet_def by (simp only: if_False) (rule nth_mem, simp)

lemma hex_digit_upper: "n < 16 \<Longrightarrow> hex_alphabet True ! n \<in> set ''0123456789ABCDEF''"
  unfolding hex_alphabet_def by (simp only: if_True) (rule nth_mem, simp)

lemma unat_byte_div16: "unat (b :: byte) div 16 < 16"
proof -
  have "unat b < 2 ^ LENGTH(8)" by (rule unsigned_less)
  then have "unat b < 256" by simp
  then show ?thesis by simp
qed

lemma HexEncoder_lower: "set (HexEncoder False bs) \<subseteq> set ''0123456789abcdef''"
  unfolding HexEncoder_def using hex_digit_lower unat_byte_div16
  by (induction bs) auto

lemma HexEncoder_upper: "set (HexEncoder True bs) \<subseteq> set ''0123456789ABCDEF''"
  unfolding HexEncoder_def using hex_digit_upper unat_byte_div16
  by (induction bs) auto

lemma length_round256: "length s = 8 \<Longrightarrow> length (round256 s kw) = 8"
proof -
  assume "length s = 8"
  then obtain a b c d e f g h where "s = [a, b, c, d, e, f, g, h]"
    by (auto simp: length_Suc_conv numeral_eq_Suc)
  then show ?thesis by (cases kw) (simp add: Let_def)
qed

lemma length_foldl_round256: "length s = 8 \<Longrightarrow> length (foldl round256 s kws) = 8"
  by (induction kws arbitrary: s) (auto simp: length_round256)

lemma length_compress: "length h = 8 \<Longrightarrow> length (compress h blk) = 8"
  by (simp add: compress_def length_foldl_round256)

lemma length_foldl_compress: "length h = 8 \<Longrightarrow> length (foldl compress h bs) = 8"
  by (induction bs arbitrary: h) (auto simp: length_compress)

lemma length_concat_bytes_of32: "length (concat (map bytes_of32 ws)) = 4 * length ws"
  by (induction ws) (auto simp: bytes_of32_def)

lemma length_sha256: "length (sha256 m) = 32"
  by (simp add: sha256_def length_concat_bytes_of32 length_foldl_compress H256_def)

lemma length_HMAC_SHA256: "length (HMAC_SHA256 k m) = 32"
  by (simp add: HMAC_SHA256_def Let_def length_sha256)


section \<open>Properties of CBC and of the padding\<close>

lemma blocks_unfold:
  "n > 0 \<Longrightarrow> xs \<noteq> [] \<Longrightarrow> blocks n xs = take n xs # blocks n (drop n xs)"
  by (cases xs) simp_all

lemma blocks_append:
  "n > 0 \<Longrightarrow> length a = n \<Longrightarrow> blocks n (a @ b) = a # blocks n b"
  by (subst blocks_unfold) auto

lemma blocks_concat:
  "\<forall>b \<in> set bs. length b = 16 \<Longrightarrow> blocks 16 (concat bs) = bs"
  by (induction bs) (auto simp: blocks_append)

lemma concat_blocks: "n > 0 \<Longrightarrow> concat (blocks n xs) = xs"
  by (induction n xs rule: blocks.induct) auto

lemma blocks_length:
  "n > 0 \<Longrightarrow> length xs mod n = 0 \<Longrightarrow> \<forall>b \<in> set (blocks n xs). length b = n"
proof (induction n xs rule: blocks.induct)
  case (1 n)
  then show ?case by simp
next
  case (2 n v va)
  let ?xs = "v # va"
  have len: "length ?xs \<ge> n"
  proof (rule ccontr)
    assume "\<not> n \<le> length ?xs"
    then have "length ?xs mod n = length ?xs" by simp
    with 2(3) show False by simp
  qed
  have "(length ?xs - n) mod n = 0"
    using le_mod_geq [OF len] 2(3) by simp
  then have d: "length (drop n ?xs) mod n = 0" by (simp del: drop.simps)
  have "\<forall>b \<in> set (blocks n (drop n ?xs)). length b = n"
    using 2(1) [OF _ 2(2) d] 2(2) by simp
  moreover have "blocks n ?xs = take n ?xs # blocks n (drop n ?xs)"
    using 2(2) by (intro blocks_unfold) simp_all
  moreover have "length (take n ?xs) = n"
    using len by (simp del: take.simps)
  ultimately show ?case by (simp del: take.simps drop.simps blocks.simps)
qed

lemma length_xor_bytes: "length (xor_bytes a b) = min (length a) (length b)"
  by (simp add: xor_bytes_def)

lemma xor_bytes_cancel: "length a = length b \<Longrightarrow> xor_bytes (xor_bytes a b) b = a"
  unfolding xor_bytes_def
  by (induction a b rule: list_induct2) (auto simp: xor.assoc)

lemma cbc_blocks_length:
  "cipher_ok c \<Longrightarrow> length prev = 16 \<Longrightarrow> \<forall>p \<in> set ps. length p = 16 \<Longrightarrow>
   \<forall>b \<in> set (cbc_encrypt_blocks (encryptBlock c k) prev ps). length b = 16"
proof (induction ps arbitrary: prev)
  case Nil
  then show ?case by simp
next
  case (Cons p ps)
  have lp: "length (xor_bytes p prev) = 16"
    using Cons.prems by (simp add: length_xor_bytes)
  have le: "length (encryptBlock c k (xor_bytes p prev)) = 16"
    using Cons.prems(1) lp unfolding cipher_ok_def by blast
  from Cons.IH [OF Cons.prems(1) le] Cons.prems(3) le show ?case
    by (simp add: Let_def)
qed

lemma length_cbc_encrypt_blocks:
  "length (cbc_encrypt_blocks E prev ps) = length ps"
  by (induction ps arbitrary: prev) (auto simp: Let_def)

lemma cbc_roundtrip:
  "cipher_ok c \<Longrightarrow> length prev = 16 \<Longrightarrow> \<forall>p \<in> set ps. length p = 16 \<Longrightarrow>
   cbc_decrypt_blocks (decryptBlock c k) prev (cbc_encrypt_blocks (encryptBlock c k) prev ps) = ps"
proof (induction ps arbitrary: prev)
  case Nil
  then show ?case by simp
next
  case (Cons p ps)
  have lp: "length (xor_bytes p prev) = 16"
    using Cons.prems by (simp add: length_xor_bytes)
  have le: "length (encryptBlock c k (xor_bytes p prev)) = 16"
    and de: "decryptBlock c k (encryptBlock c k (xor_bytes p prev)) = xor_bytes p prev"
    using Cons.prems(1) lp unfolding cipher_ok_def by blast+
  have "xor_bytes (xor_bytes p prev) prev = p"
    using Cons.prems by (intro xor_bytes_cancel) simp
  with Cons.IH [OF Cons.prems(1) le] Cons.prems(3) de show ?case
    by (simp add: Let_def)
qed

lemma length_concat_blocks16:
  "\<forall>b \<in> set bs. length b = 16 \<Longrightarrow> length (concat bs) = 16 * length bs"
  by (induction bs) auto

lemma length_pkcs_pad: "length (pkcs_pad m) = 16 * (length m div 16 + 1)"
proof -
  have "length m mod 16 < 16" by simp
  then have "length (pkcs_pad m) = length m - length m mod 16 + 16"
    by (simp add: pkcs_pad_def)
  also have "length m - length m mod 16 = 16 * (length m div 16)"
    by (simp add: minus_mod_eq_mult_div)
  finally show ?thesis by simp
qed

lemma pkcs_pad_mod: "length (pkcs_pad m) mod 16 = 0"
  by (simp add: length_pkcs_pad)

lemma length_blocks:
  "n > 0 \<Longrightarrow> length xs mod n = 0 \<Longrightarrow> length (blocks n xs) = length xs div n"
proof (induction n xs rule: blocks.induct)
  case (1 n)
  then show ?case by simp
next
  case (2 n v va)
  let ?xs = "v # va"
  have len: "length ?xs \<ge> n"
  proof (rule ccontr)
    assume "\<not> n \<le> length ?xs"
    then have "length ?xs mod n = length ?xs" by simp
    with 2(3) show False by simp
  qed
  have "(length ?xs - n) mod n = 0"
    using le_mod_geq [OF len] 2(3) by simp
  then have d: "length (drop n ?xs) mod n = 0" by (simp del: drop.simps)
  have ih: "length (blocks n (drop n ?xs)) = length (drop n ?xs) div n"
    using 2(1) [OF _ 2(2) d] 2(2) by simp
  have "blocks n ?xs = take n ?xs # blocks n (drop n ?xs)"
    using 2(2) by (intro blocks_unfold) simp_all
  then have "length (blocks n ?xs) = Suc ((length ?xs - n) div n)"
    using ih by (simp del: take.simps drop.simps blocks.simps)
  also have "\<dots> = length ?xs div n"
    using len 2(2) by (simp add: le_div_geq)
  finally show ?case .
qed

lemma blocks_last_butlast:
  assumes "xs \<noteq> []" "length xs mod 16 = 0"
  shows "blocks 16 xs \<noteq> []"
    and "last (blocks 16 xs) = drop (length xs - 16) xs"
    and "concat (butlast (blocks 16 xs)) = take (length xs - 16) xs"
proof -
  let ?bs = "blocks 16 xs"
  show ne: "?bs \<noteq> []" using assms(1) by (cases xs) simp_all
  have cc: "concat ?bs = xs" by (simp add: concat_blocks)
  have "\<forall>b \<in> set ?bs. length b = 16"
    using assms(2) by (intro blocks_length) simp_all
  then have ll: "length (last ?bs) = 16" using ne by simp
  have "concat (butlast ?bs @ [last ?bs]) = xs" using ne cc by simp
  then have xs: "xs = concat (butlast ?bs) @ last ?bs" by simp
  have len: "length xs - 16 = length (concat (butlast ?bs))"
    using ll by (subst xs) (simp del: length_concat)
  show "last ?bs = drop (length xs - 16) xs"
    unfolding len by (subst (2) xs) simp
  show "concat (butlast ?bs) = take (length xs - 16) xs"
    unfolding len by (subst (2) xs) simp
qed

lemma pad_byte:
  assumes "n \<le> 16" "0 < n"
  shows "unat (of_nat n :: byte) = n"
    and "\<not> (of_nat n :: byte) < 1"
    and "\<not> (of_nat n :: byte) > 16"
proof -
  show u: "unat (of_nat n :: byte) = n"
    using assms by (simp add: unat_of_nat)
  show "\<not> (of_nat n :: byte) < 1"
    using u assms by (simp add: word_less_nat_alt)
  show "\<not> (of_nat n :: byte) > 16"
    using u assms by (simp add: word_less_nat_alt)
qed

lemma pkcs_unpad_pad:
  assumes "length a + n = 16" "0 < n"
  shows "pkcs_unpad (a @ replicate n (of_nat n)) = Inr a"
proof -
  let ?p = "of_nat n :: byte"
  have n16: "n \<le> 16" using assms by simp
  have la: "last (a @ replicate n ?p) = ?p" using assms(2) by simp
  have d: "16 - n = length a" using assms by simp
  show ?thesis
    unfolding pkcs_unpad_def Let_def la
    using pad_byte [OF n16 assms(2)] d by (simp add: list_all_iff)
qed

lemma pkcs_pad_split:
  "pkcs_pad m = take (length m - length m mod 16) m
     @ (drop (length m - length m mod 16) m
          @ replicate (16 - length m mod 16) (of_nat (16 - length m mod 16)))"
  by (simp add: pkcs_pad_def)

lemma pkcs_pad_last:
  "drop (length (pkcs_pad m) - 16) (pkcs_pad m) =
     drop (length m - length m mod 16) m
       @ replicate (16 - length m mod 16) (of_nat (16 - length m mod 16))"
  "take (length (pkcs_pad m) - 16) (pkcs_pad m) = take (length m - length m mod 16) m"
proof -
  have r: "length m mod 16 < 16" by simp
  have l: "length (pkcs_pad m) - 16 = length m - length m mod 16"
    using r by (simp add: pkcs_pad_def)
  have le: "length m mod 16 \<le> length m" by (rule mod_less_eq_dividend)
  show "drop (length (pkcs_pad m) - 16) (pkcs_pad m) =
     drop (length m - length m mod 16) m
       @ replicate (16 - length m mod 16) (of_nat (16 - length m mod 16))"
    unfolding l using le by (simp add: pkcs_pad_def)
  show "take (length (pkcs_pad m) - 16) (pkcs_pad m) = take (length m - length m mod 16) m"
    unfolding l using le by (simp add: pkcs_pad_def)
qed

lemma pkcs_pad_nonempty: "pkcs_pad m \<noteq> []"
  using length_pkcs_pad [of m] by auto

lemma pkcs_roundtrip:
  "pkcs_unpad (last (blocks 16 (pkcs_pad m))) = Inr (drop (length m - length m mod 16) m)"
  "concat (butlast (blocks 16 (pkcs_pad m))) = take (length m - length m mod 16) m"
proof -
  have le: "length m mod 16 \<le> length m" by (rule mod_less_eq_dividend)
  have r: "length m mod 16 < 16" by simp
  have "length (drop (length m - length m mod 16) m) + (16 - length m mod 16) = 16"
    using le r by simp
  then have "pkcs_unpad (drop (length m - length m mod 16) m
       @ replicate (16 - length m mod 16) (of_nat (16 - length m mod 16)))
     = Inr (drop (length m - length m mod 16) m)"
    using r by (intro pkcs_unpad_pad) simp_all
  then show "pkcs_unpad (last (blocks 16 (pkcs_pad m))) = Inr (drop (length m - length m mod 16) m)"
    by (simp only: blocks_last_butlast(2) [OF pkcs_pad_nonempty pkcs_pad_mod] pkcs_pad_last(1))
  show "concat (butlast (blocks 16 (pkcs_pad m))) = take (length m - length m mod 16) m"
    by (simp only: blocks_last_butlast(3) [OF pkcs_pad_nonempty pkcs_pad_mod] pkcs_pad_last(2))
qed

lemma SetKeyWithIV_ok:
  "length key \<in> {16, 24, 32} \<Longrightarrow> length iv = 16 \<Longrightarrow> SetKeyWithIV key iv = None"
  by (auto simp: SetKeyWithIV_def)

lemma CBC_Encryption_ok:
  assumes "length key \<in> {16, 24, 32}" "length iv = 16"
  shows "CBC_Encryption c key iv b =
           Inr (concat (cbc_encrypt_blocks (encryptBlock c key) iv (blocks 16 (pkcs_pad b))))"
  by (simp add: CBC_Encryption_def SetKeyWithIV_ok [OF assms])

lemma CBC_roundtrip:
  assumes ok: "cipher_ok c" and key: "length key \<in> {16, 24, 32}" and iv: "length iv = 16"
    and enc: "CBC_Encryption c key iv b = Inr ct"
  shows "CBC_Decryption c key iv ct = Inr b"
proof -
  let ?ps = "blocks 16 (pkcs_pad b)"
  let ?cs = "cbc_encrypt_blocks (encryptBlock c key) iv ?ps"
  have ct: "ct = concat ?cs"
    using enc CBC_Encryption_ok [OF key iv, of c b] by simp
  have pl: "\<forall>p \<in> set ?ps. length p = 16"
    by (intro blocks_length) (simp_all add: pkcs_pad_mod)
  have cl: "\<forall>x \<in> set ?cs. length x = 16"
    by (rule cbc_blocks_length [OF ok iv pl])
  have bc: "blocks 16 ct = ?cs"
    unfolding ct by (rule blocks_concat [OF cl])
  have lct: "length ct = 16 * length ?ps"
    unfolding ct by (simp only: length_concat_blocks16 [OF cl] length_cbc_encrypt_blocks)
  have "?ps \<noteq> []"
    by (rule blocks_last_butlast(1) [OF pkcs_pad_nonempty pkcs_pad_mod])
  then have ne: "ct \<noteq> []" and m: "length ct mod 16 = 0"
    using lct by auto
  have dec: "cbc_decrypt_blocks (decryptBlock c key) iv (blocks 16 ct) = ?ps"
    unfolding bc by (rule cbc_roundtrip [OF ok iv pl])
  have "take (length b - length b mod 16) b @ drop (length b - length b mod 16) b = b"
    by simp
  then show ?thesis
    unfolding CBC_Decryption_def SetKeyWithIV_ok [OF key iv]
    using ne m by (simp add: dec pkcs_roundtrip del: append_take_drop_id)
qed

lemma toy_cipher_ok: "cipher_ok toy_cipher"
  by (simp add: cipher_ok_def toy_cipher_def rev_map comp_def)

lemma CBC_Encryption_Inr:
  assumes "CBC_Encryption c key iv b = Inr ct"
  shows "length key \<in> {16, 24, 32}" and "length iv = 16"
    and "ct = concat (cbc_encrypt_blocks (encryptBlock c key) iv (blocks 16 (pkcs_pad b)))"
  using assms by (auto simp: CBC_Encryption_def SetKeyWithIV_def split: if_splits)

lemma length_CBC_Encryption:
  assumes ok: "cipher_ok c" and enc: "CBC_Encryption c key iv b = Inr ct"
  shows "length ct = 16 * (length b div 16 + 1)"
proof -
  let ?ps = "blocks 16 (pkcs_pad b)"
  let ?cs = "cbc_encrypt_blocks (encryptBlock c key) iv ?ps"
  have iv: "length iv = 16" and ct: "ct = concat ?cs"
    using CBC_Encryption_Inr [OF enc] by simp_all
  have pl: "\<forall>p \<in> set ?ps. length p = 16"
    by (intro blocks_length) (simp_all add: pkcs_pad_mod)
  have cl: "\<forall>x \<in> set ?cs. length x = 16"
    by (rule cbc_blocks_length [OF ok iv pl])
  have "length ct = 16 * length ?ps"
    unfolding ct by (simp only: length_concat_blocks16 [OF cl] length_cbc_encrypt_blocks)
  also have "length ?ps = length (pkcs_pad b) div 16"
    by (intro length_blocks) (simp_all add: pkcs_pad_mod)
  also have "\<dots> = length b div 16 + 1"
    by (simp add: length_pkcs_pad)
  finally show ?thesis .
qed

section \<open>The claims\<close>

text \<open>
  Claim C1. For every byte buffer \<open>b\<close>, every key of 16, 24 or 32 bytes and every 16-byte
  IV, encrypting \<open>b\<close> in CBC mode with PKCS padding succeeds, and decrypting the resulting
  ciphertext with the same key and IV gives back exactly \<open>b\<close>. The block cipher is any
  cipher whose block decryption inverts its block encryption.
\<close>

theorem aes_cbc_round_trip:
  assumes "cipher_ok c"
    and "length k = 16 \<or> length k = 24 \<or> length k = 32"
    and "length iv = 16"
  shows "\<exists>ct. CBC_Encryption c k iv b = Inr ct \<and> CBC_Decryption c k iv ct = Inr b"
proof -
  have k: "length k \<in> {16, 24, 32}" using assms(2) by auto
  obtain ct where ct: "CBC_Encryption c k iv b = Inr ct"
    using CBC_Encryption_ok [OF k assms(3)] by blast
  from CBC_roundtrip [OF assms(1) k assms(3) ct] ct show ?thesis by blast
qed

text \<open>The round trip of C1 on the input "hello".\<close>

theorem aes_cbc_round_trip_witness:
  "cipher_ok toy_cipher \<and> length (replicate 32 (7 :: byte)) = 32 \<and> length (replicate 16 (9 :: byte)) = 16
   \<and> (\<exists>ct. CBC_Encryption toy_cipher (replicate 32 7) (replicate 16 9) (bytes_of_string ''hello'') = Inr ct
          \<and> CBC_Decryption toy_cipher (replicate 32 7) (replicate 16 9) ct = Inr (bytes_of_string ''hello''))"
  using aes_cbc_round_trip [OF toy_cipher_ok, of "replicate 32 7" "replicate 16 9" "bytes_of_string ''hello''"]
    toy_cipher_ok
  by simp

lemma ensureKey_config:
  assumes "ensureKey q e s0 = (s, rng)"
  shows "aesKeyBytes s = aesKeyBytes s0" "aesIvBytes s = aesIvBytes s0" "hmacKeyBytes s = hmacKeyBytes s0"
  using assms by (auto simp: ensureKey_def onGenerateKey_def Let_def split: if_splits prod.splits)

lemma processEncrypt_success:
  assumes "processEncrypt c q e b s0 = (None, s')"
  shows "\<exists>iv ct. CBC_Encryption c (decodeKey (uninit e) (aesKeyBytes s0) (keyHexEdit s')) iv b = Inr ct
           \<and> processedData s' = iv @ ct \<and> lastAction s' = ProcessedData \<and> \<not> lastOutputIsText s'"
proof -
  obtain s rng where sk: "ensureKey q e s0 = (s, rng)" by (cases "ensureKey q e s0")
  let ?key = "decodeKey (uninit e) (aesKeyBytes s) (keyHexEdit s)"
  let ?iv = "fst (GenerateBlock rng (aesIvBytes s))"
  show ?thesis
  proof (cases "CBC_Encryption c ?key ?iv b")
    case (Inl err)
    with assms sk show ?thesis by (simp add: processEncrypt_def caught_def)
  next
    case (Inr ct)
    with assms sk have s': "s' = s\<lparr>processedData := ?iv @ ct,
                        outputText := fromStdString q
                          (''Encryption successful. Ciphertext size (IV + ciphertext): ''
                             @ decimal (length (?iv @ ct)) @ '' bytes''),
                        statusLabel := Status ''Encryption done (no HMAC)'',
                        progressBar := 100,
                        lastAction := ProcessedData,
                        lastOutputIsText := False\<rparr>"
      by (simp add: processEncrypt_def Let_def)
    have "keyHexEdit s' = keyHexEdit s" by (simp add: s')
    with Inr ensureKey_config(1) [OF sk] s' show ?thesis by auto
  qed
qed

lemma onProcess_encrypt:
  assumes "opCombo s = ''AES Encrypt (file)''" "fileContent e = Some b" "inputFilePath s \<noteq> []"
  shows "onProcess c q e s = processEncrypt c q e b (s\<lparr>progressBar := 10\<rparr>)"
  using assms by (simp add: onProcess_def Let_def)

text \<open>
  Claim C2. When the encryption operation succeeds, \<open>processedData\<close> is exactly a 16-byte
  IV followed by the CBC ciphertext of the input under the decoded key, with nothing
  before, between or after; the length of the ciphertext is a multiple of 16 and larger
  than the length of the input, so that the whole artifact has
  \<open>16 + 16 * (length b div 16 + 1)\<close> bytes: 32 bytes for a 5-byte input.
\<close>

theorem encrypt_artifact_layout:
  assumes "cipher_ok c"
    and "opCombo s = ''AES Encrypt (file)''"
    and "fileContent e = Some b"
    and "onProcess c q e s = (None, s')"
  shows "\<exists>iv ct. processedData s' = iv @ ct \<and> length iv = 16
           \<and> CBC_Encryption c (decodeKey (uninit e) (aesKeyBytes s) (keyHexEdit s')) iv b = Inr ct
           \<and> length ct mod 16 = 0 \<and> length b < length ct
           \<and> length (processedData s') = 16 + 16 * (length b div 16 + 1)"
proof -
  have ne: "inputFilePath s \<noteq> []"
    using assms(2,4) by (auto simp: onProcess_def)
  have "processEncrypt c q e b (s\<lparr>progressBar := 10\<rparr>) = (None, s')"
    using onProcess_encrypt [OF assms(2,3) ne] assms(4) by simp
  from processEncrypt_success [OF this] obtain iv ct where
    enc: "CBC_Encryption c (decodeKey (uninit e) (aesKeyBytes s) (keyHexEdit s')) iv b = Inr ct"
    and pd: "processedData s' = iv @ ct" by auto
  have iv: "length iv = 16" by (rule CBC_Encryption_Inr(2) [OF enc])
  have len: "length ct = 16 * (length b div 16 + 1)"
    by (rule length_CBC_Encryption [OF assms(1) enc])
  have "length b < 16 * (length b div 16 + 1)"
    by presburger
  then have lt: "length b < length ct" using len by simp
  have m: "length ct mod 16 = 0" using len by simp
  have tot: "length (processedData s') = 16 + 16 * (length b div 16 + 1)"
    using pd iv len by simp
  show ?thesis
    by (intro exI [of _ iv] exI [of _ ct] conjI pd iv enc m lt tot)
qed

text \<open>The run on "hello" with a 32-byte key: the operation succeeds with 32 bytes.\<close>

theorem encrypt_artifact_layout_witness:
  "cipher_ok toy_cipher \<and> opCombo hello_session = ''AES Encrypt (file)''
   \<and> fileContent hello_env = Some (bytes_of_string ''hello'')
   \<and> fst (onProcess toy_cipher ascii_qt hello_env hello_session) = None
   \<and> length (processedData (snd (onProcess toy_cipher ascii_qt hello_env hello_session))) = 32"
proof -
  have op: "opCombo hello_session = ''AES Encrypt (file)''"
    by (simp add: hello_session_def)
  have fc: "fileContent hello_env = Some (bytes_of_string ''hello'')"
    by (simp add: hello_env_def)
  have run: "fst (onProcess toy_cipher ascii_qt hello_env hello_session) = None"
    by code_simp
  then have res: "onProcess toy_cipher ascii_qt hello_env hello_session =
      (None, snd (onProcess toy_cipher ascii_qt hello_env hello_session))"
    by (metis prod.collapse)
  from encrypt_artifact_layout [OF toy_cipher_ok op fc res]
  have "length (processedData (snd (onProcess toy_cipher ascii_qt hello_env hello_session))) =
          16 + 16 * (length (bytes_of_string ''hello'') div 16 + 1)"
    by blast
  then have "length (processedData (snd (onProcess toy_cipher ascii_qt hello_env hello_session))) = 32"
    by (simp add: bytes_of_string_def)
  with toy_cipher_ok op fc run show ?thesis by simp
qed

lemma length_ArraySink: "length (ArraySink buf bs) = length buf"
  by (simp add: ArraySink_def)

lemma length_decodeKey: "length (decodeKey u n h) = n"
  by (simp add: decodeKey_def length_ArraySink SecByteBlock_def)




lemma onProcess_decrypt:
  assumes "opCombo s = ''AES Decrypt (file)''" "fileContent e = Some b" "inputFilePath s \<noteq> []"
  shows "onProcess c q e s = processDecrypt c q e b (s\<lparr>progressBar := 10\<rparr>)"
  using assms by (simp add: onProcess_def Let_def)










lemma processHmac_succeeds: "fst (processHmac q e b s) = None"
  by (simp add: processHmac_def Let_def split: prod.splits)

lemma onProcess_hmac:
  assumes "opCombo s = ''HMAC-SHA256 (file)''" "fileContent e = Some b" "inputFilePath s \<noteq> []"
  shows "onProcess c q e s = processHmac q e b (s\<lparr>progressBar := 10\<rparr>)"
  using assms by (simp add: onProcess_def Let_def)

lemma onProcess_digest:
  assumes "opCombo s = ''SHA-256 Digest (file)''" "fileContent e = Some b" "inputFilePath s \<noteq> []"
  shows "onProcess c q e s = processDigest q b (s\<lparr>progressBar := 10\<rparr>)"
  using assms by (simp add: onProcess_def Let_def)




lemma session_state_progress [simp]:
  "session_state (s\<lparr>progressBar := n\<rparr>) = session_state s"
  "session_state (s\<lparr>statusLabel := st\<rparr>) = session_state s"
  by (simp_all add: session_state_def)

lemma session_state_onGenerateKey:
  "session_state (onGenerateKey q rng s) = ([], False, fromStdString q [], GeneratedKey)"
  by (simp add: session_state_def onGenerateKey_def Let_def split: prod.splits)

lemma CBC_Encryption_Inl:
  "CBC_Encryption c key iv b = Inl err \<Longrightarrow> err = InvalidKeyLength \<or> err = InvalidIvLength"
  by (auto simp: CBC_Encryption_def SetKeyWithIV_def split: if_splits option.splits)

lemma processEncrypt_failure:
  assumes "processEncrypt c q e b s0 = (Some err, s')"
  shows "session_state s' = session_state (fst (ensureKey q e s0))"
    and "err = InvalidKeyLength \<or> err = InvalidIvLength"
proof -
  obtain s rng where sk: "ensureKey q e s0 = (s, rng)" by (cases "ensureKey q e s0")
  let ?key = "decodeKey (uninit e) (aesKeyBytes s) (keyHexEdit s)"
  let ?iv = "fst (GenerateBlock rng (aesIvBytes s))"
  have "session_state s' = session_state s \<and> (err = InvalidKeyLength \<or> err = InvalidIvLength)"
  proof (cases "CBC_Encryption c ?key ?iv b")
    case (Inl x)
    with assms sk have "x = err" and "s' = s\<lparr>statusLabel := CryptoError x\<rparr>"
      by (auto simp add: processEncrypt_def caught_def)
    with CBC_Encryption_Inl [OF Inl] show ?thesis by simp
  next
    case (Inr ct)
    with assms sk show ?thesis by (simp add: processEncrypt_def Let_def)
  qed
  with sk show "session_state s' = session_state (fst (ensureKey q e s0))"
    and "err = InvalidKeyLength \<or> err = InvalidIvLength" by simp_all
qed

lemma processDecrypt_failure:
  assumes "processDecrypt c q e b s = (Some err, s')"
  shows "session_state s' = session_state s"
  using assms unfolding processDecrypt_def Let_def caught_def
  by (auto split: if_splits sum.splits)

text \<open>
  Claim C5, as amended. When \<^verbatim>\<open>onProcess\<close> does not carry out the selected operation, the
  four fields \<open>processedData\<close>, \<open>lastOutputIsText\<close>, \<open>lastTextOutput\<close> and \<open>lastAction\<close> are
  as before, with one exception: an encryption started with an empty key field generates
  a key pair first, and when Crypto++ then rejects the key or IV size the four fields stay
  as the key generation set them.
\<close>

theorem failed_operation_state:
  assumes "onProcess c q e s = (Some err, s')"
  shows "session_state s' =
           (if opCombo s = ''AES Encrypt (file)'' \<and> keyHexEdit s = []
               \<and> (err = InvalidKeyLength \<or> err = InvalidIvLength)
            then ([], False, fromStdString q [], GeneratedKey)
            else session_state s)"
proof (cases "opCombo s = ''Generate Symmetric Key'' \<or> inputFilePath s = [] \<or> fileContent e = None")
  case True
  with assms show ?thesis by (auto simp: onProcess_def split: if_splits)
next
  case False
  then obtain b where fc: "fileContent e = Some b" and ne: "inputFilePath s \<noteq> []"
    and ng: "opCombo s \<noteq> ''Generate Symmetric Key''" by auto
  let ?s1 = "s\<lparr>progressBar := 10\<rparr>"
  consider (enc) "opCombo s = ''AES Encrypt (file)''"
    | (dec) "opCombo s = ''AES Decrypt (file)''"
    | (dig) "opCombo s = ''SHA-256 Digest (file)''"
    | (mac) "opCombo s = ''HMAC-SHA256 (file)''"
    | (other) "opCombo s \<noteq> ''AES Encrypt (file)''" "opCombo s \<noteq> ''AES Decrypt (file)''"
        "opCombo s \<noteq> ''SHA-256 Digest (file)''" "opCombo s \<noteq> ''HMAC-SHA256 (file)''"
    by blast
  then show ?thesis
  proof cases
    case enc
    have pe: "processEncrypt c q e b ?s1 = (Some err, s')"
      using onProcess_encrypt [OF enc fc ne] assms by simp
    have st: "session_state s' = session_state (fst (ensureKey q e ?s1))"
      and er: "err = InvalidKeyLength \<or> err = InvalidIvLength"
      using processEncrypt_failure [OF pe] by simp_all
    show ?thesis
      using enc st er by (simp add: ensureKey_def session_state_onGenerateKey)
  next
    case dec
    have "processDecrypt c q e b ?s1 = (Some err, s')"
      using onProcess_decrypt [OF dec fc ne] assms by simp
    from processDecrypt_failure [OF this] dec show ?thesis by simp
  next
    case dig
    from onProcess_digest [OF dig fc ne] assms show ?thesis
      by (simp add: processDigest_def Let_def)
  next
    case mac
    have "fst (onProcess c q e s) = None"
      using onProcess_hmac [OF mac fc ne] by (simp add: processHmac_succeeds)
    with assms show ?thesis by simp
  next
    case other
    with assms fc ne ng show ?thesis by (auto simp: onProcess_def Let_def)
  qed
qed

lemma after_digest_fields:
  "lastAction after_digest = ShaOrHmacText" "lastOutputIsText after_digest"
  "keyHexEdit after_digest = []" "aesKeyBytes after_digest = 20"
  "inputFilePath after_digest = ''hello.txt''" "aesIvBytes after_digest = 16"
  "hmacKeyBytes after_digest = 32"
  by (simp_all add: after_digest_def onProcess_def processDigest_def Let_def hello_env_def initial_def)

lemma encrypt_after_digest_run:
  "fst (onProcess toy_cipher ascii_qt hello_env encrypt_after_digest) = Some InvalidKeyLength"
  "lastAction (snd (onProcess toy_cipher ascii_qt hello_env encrypt_after_digest)) = GeneratedKey"
  "\<not> lastOutputIsText (snd (onProcess toy_cipher ascii_qt hello_env encrypt_after_digest))"
  by (simp_all add: encrypt_after_digest_def after_digest_fields onProcess_def processEncrypt_def
      ensureKey_def onGenerateKey_def Let_def hello_env_def CBC_Encryption_def SetKeyWithIV_def
      length_decodeKey caught_def split: prod.splits)

lemma encrypt_after_digest_fields:
  "opCombo encrypt_after_digest = ''AES Encrypt (file)''"
  "keyHexEdit encrypt_after_digest = []"
  "lastAction encrypt_after_digest = ShaOrHmacText"
  "lastOutputIsText encrypt_after_digest"
  by (simp_all add: encrypt_after_digest_def after_digest_fields)

text \<open>
  Claim C5 as stated fails: with a configured key size of 20 and an empty key field, the
  encryption selected after a digest was computed fails with \<open>InvalidKeyLength\<close>, and
  \<open>lastAction\<close> and \<open>lastOutputIsText\<close> have changed.
\<close>

theorem failed_encrypt_changes_state_counterexample:
  "fst (onProcess toy_cipher ascii_qt hello_env encrypt_after_digest) = Some InvalidKeyLength
   \<and> lastAction encrypt_after_digest = ShaOrHmacText
   \<and> lastAction (snd (onProcess toy_cipher ascii_qt hello_env encrypt_after_digest)) = GeneratedKey
   \<and> lastOutputIsText encrypt_after_digest
   \<and> \<not> lastOutputIsText (snd (onProcess toy_cipher ascii_qt hello_env encrypt_after_digest))"
  using encrypt_after_digest_run encrypt_after_digest_fields by simp

text \<open>
  Two failing runs as instances of the amended claim: the encryption above, and the
  decryption of 16 zero bytes, which leaves the four fields unchanged.
\<close>

theorem failed_operation_state_witness:
  "onProcess toy_cipher ascii_qt hello_env encrypt_after_digest =
     (Some InvalidKeyLength, snd (onProcess toy_cipher ascii_qt hello_env encrypt_after_digest))
   \<and> session_state (snd (onProcess toy_cipher ascii_qt hello_env encrypt_after_digest)) =
       ([], False, [], GeneratedKey)
   \<and> onProcess toy_cipher ascii_qt (zeros_env 16) decrypt_session =
     (Some InvalidCiphertextLength, snd (onProcess toy_cipher ascii_qt (zeros_env 16) decrypt_session))
   \<and> session_state (snd (onProcess toy_cipher ascii_qt (zeros_env 16) decrypt_session)) =
       session_state decrypt_session"
proof -
  have r1: "onProcess toy_cipher ascii_qt hello_env encrypt_after_digest =
     (Some InvalidKeyLength, snd (onProcess toy_cipher ascii_qt hello_env encrypt_after_digest))"
    using encrypt_after_digest_run(1) by (metis prod.collapse)
  have "fst (onProcess toy_cipher ascii_qt (zeros_env 16) decrypt_session) = Some InvalidCiphertextLength"
    by code_simp
  then have r2: "onProcess toy_cipher ascii_qt (zeros_env 16) decrypt_session =
     (Some InvalidCiphertextLength, snd (onProcess toy_cipher ascii_qt (zeros_env 16) decrypt_session))"
    by (metis prod.collapse)
  have op: "opCombo decrypt_session \<noteq> ''AES Encrypt (file)''"
    by (simp add: decrypt_session_def)
  from failed_operation_state [OF r1] failed_operation_state [OF r2] r1 r2 op
    encrypt_after_digest_fields
  show ?thesis by (simp add: ascii_qt_def)
qed

lemma resolveHmacKey_eq:
  "fst (resolveHmacKey e s) =
     (if hmacKeyEdit s \<noteq> [] then decodeKey (uninit e) (hmacKeyBytes s) (hmacKeyEdit s)
      else if keyHexEdit s \<noteq> [] then decodeKey (uninit e) (hmacKeyBytes s) (keyHexEdit s)
      else fst (GenerateBlock (entropy e) (hmacKeyBytes s)))"
  by (simp add: resolveHmacKey_def Let_def)

lemma resolveHmacKey_state:
  "snd (resolveHmacKey e s) =
     (if hmacKeyEdit s \<noteq> [] \<or> keyHexEdit s \<noteq> [] then s
      else s\<lparr>hmacKeyEdit := HexEncoder True (fst (GenerateBlock (entropy e) (hmacKeyBytes s))),
             lastGeneratedHmacKeyHex := HexEncoder True (fst (GenerateBlock (entropy e) (hmacKeyBytes s)))\<rparr>)"
  by (simp add: resolveHmacKey_def Let_def)

lemma processHmac_eq:
  "processHmac q e inp s =
     (None, (snd (resolveHmacKey e s))
        \<lparr>processedData := inp @ HMAC_SHA256 (fst (resolveHmacKey e s)) inp,
         outputText := fromStdString q
           (string_of_bytes inp @ HexEncoder False (HMAC_SHA256 (fst (resolveHmacKey e s)) inp)),
         statusLabel := Status ''HMAC-SHA256 generated and appended'',
         progressBar := 100,
         lastAction := ShaOrHmacText,
         lastOutputIsText := True,
         lastTextOutput := toPlainText q (fromStdString q
           (string_of_bytes inp @ HexEncoder False (HMAC_SHA256 (fst (resolveHmacKey e s)) inp)))\<rparr>)"
  by (simp add: processHmac_def Let_def split: prod.splits)

text \<open>
  Claim C6. The HMAC operation on a readable file always succeeds. Its key is the HMAC key
  field if that is not empty, else the symmetric key field if that is not empty, else
  freshly generated bytes, which are then shown in the HMAC key field and remembered in
  \<open>lastGeneratedHmacKeyHex\<close>. \<open>processedData\<close> is the input followed by the raw 32-byte
  HMAC-SHA256 tag; the text shown is the input bytes as a string followed at once by the
  64 hex digits of the tag, and \<open>lastTextOutput\<close> is that text as the output field
  returns it.
\<close>

theorem mac_key_priority_and_outputs:
  assumes "opCombo s = ''HMAC-SHA256 (file)''" and "inputFilePath s \<noteq> []"
    and "fileContent e = Some inp"
  shows "fst (onProcess c q e s) = None
    \<and> processedData (snd (onProcess c q e s)) = inp @ HMAC_SHA256 (mac_key e s) inp
    \<and> length (HMAC_SHA256 (mac_key e s) inp) = 32
    \<and> outputText (snd (onProcess c q e s)) =
           fromStdString q (string_of_bytes inp @ HexEncoder False (HMAC_SHA256 (mac_key e s) inp))
    \<and> length (HexEncoder False (HMAC_SHA256 (mac_key e s) inp)) = 64
    \<and> lastTextOutput (snd (onProcess c q e s)) = toPlainText q (outputText (snd (onProcess c q e s)))
    \<and> lastOutputIsText (snd (onProcess c q e s))
    \<and> lastAction (snd (onProcess c q e s)) = ShaOrHmacText
    \<and> hmacKeyEdit (snd (onProcess c q e s)) =
           (if hmacKeyEdit s = [] \<and> keyHexEdit s = [] then HexEncoder True (mac_key e s)
            else hmacKeyEdit s)
    \<and> lastGeneratedHmacKeyHex (snd (onProcess c q e s)) =
           (if hmacKeyEdit s = [] \<and> keyHexEdit s = [] then HexEncoder True (mac_key e s)
            else lastGeneratedHmacKeyHex s)
    \<and> keyHexEdit (snd (onProcess c q e s)) = keyHexEdit s"
proof -
  let ?s1 = "s\<lparr>progressBar := 10\<rparr>"
  have op: "onProcess c q e s = processHmac q e inp ?s1"
    by (rule onProcess_hmac [OF assms(1,3,2)])
  have k: "fst (resolveHmacKey e ?s1) = mac_key e s"
    by (simp add: resolveHmacKey_eq mac_key_def)
  have 1: "fst (onProcess c q e s) = None" by (simp add: op processHmac_eq)
  have 2: "processedData (snd (onProcess c q e s)) = inp @ HMAC_SHA256 (mac_key e s) inp"
    by (simp add: op processHmac_eq k)
  have 3: "length (HMAC_SHA256 (mac_key e s) inp) = 32" by (rule length_HMAC_SHA256)
  have 4: "outputText (snd (onProcess c q e s)) =
           fromStdString q (string_of_bytes inp @ HexEncoder False (HMAC_SHA256 (mac_key e s) inp))"
    by (simp add: op processHmac_eq k)
  have 5: "length (HexEncoder False (HMAC_SHA256 (mac_key e s) inp)) = 64"
    by (simp add: length_HexEncoder length_HMAC_SHA256)
  have 6: "lastTextOutput (snd (onProcess c q e s)) = toPlainText q (outputText (snd (onProcess c q e s)))"
    by (simp add: op processHmac_eq k)
  have 7: "lastOutputIsText (snd (onProcess c q e s))" by (simp add: op processHmac_eq)
  have 8: "lastAction (snd (onProcess c q e s)) = ShaOrHmacText" by (simp add: op processHmac_eq)
  have 9: "hmacKeyEdit (snd (onProcess c q e s)) =
           (if hmacKeyEdit s = [] \<and> keyHexEdit s = [] then HexEncoder True (mac_key e s)
            else hmacKeyEdit s)"
    by (simp add: op processHmac_eq resolveHmacKey_state mac_key_def)
  have 10: "lastGeneratedHmacKeyHex (snd (onProcess c q e s)) =
           (if hmacKeyEdit s = [] \<and> keyHexEdit s = [] then HexEncoder True (mac_key e s)
            else lastGeneratedHmacKeyHex s)"
    by (simp add: op processHmac_eq resolveHmacKey_state mac_key_def)
  have 11: "keyHexEdit (snd (onProcess c q e s)) = keyHexEdit s"
    by (simp add: op processHmac_eq resolveHmacKey_state)
  show ?thesis by (intro conjI 1 2 3 4 5 6 7 8 9 10 11)
qed

text \<open>
  The HMAC of "hello" with an empty HMAC key field: the key is the one of the symmetric key
  field, and the artifact has 5 + 32 bytes.
\<close>

theorem mac_key_priority_and_outputs_witness:
  "opCombo mac_session = ''HMAC-SHA256 (file)'' \<and> inputFilePath mac_session \<noteq> []
   \<and> fileContent hello_env = Some (bytes_of_string ''hello'')
   \<and> fst (onProcess toy_cipher ascii_qt hello_env mac_session) = None
   \<and> mac_key hello_env mac_session = map of_nat [0..<32]
   \<and> length (processedData (snd (onProcess toy_cipher ascii_qt hello_env mac_session))) = 37
   \<and> take 5 (processedData (snd (onProcess toy_cipher ascii_qt hello_env mac_session))) =
        bytes_of_string ''hello''"
proof -
  have h1: "opCombo mac_session = ''HMAC-SHA256 (file)''"
    and h2: "inputFilePath mac_session \<noteq> []"
    by (simp_all add: mac_session_def hello_session_def initial_def)
  have h3: "fileContent hello_env = Some (bytes_of_string ''hello'')"
    by (simp add: hello_env_def)
  have k: "mac_key hello_env mac_session = map of_nat [0..<32]"
    by code_simp
  have l: "length (bytes_of_string ''hello'') = 5" by (simp add: bytes_of_string_def)
  from mac_key_priority_and_outputs [OF h1 h2 h3, of toy_cipher ascii_qt] h1 h2 h3 k l
  show ?thesis by simp
qed

lemma sha256_empty_hex:
  "HexEncoder False (sha256 []) =
     ''e3b0c44298fc1c149afbf4c8996fb92427ae41e4649b934ca495991b7852b855''"
  by code_simp

lemma processDigest_eq:
  "processDigest q inp s =
     (None, s\<lparr>outputText := fromStdString q (HexEncoder False (sha256 inp)),
               processedData := [],
               statusLabel := Status ''SHA-256 generated'',
               progressBar := 100,
               lastAction := ShaOrHmacText,
               lastOutputIsText := True,
               lastTextOutput := toPlainText q (fromStdString q (HexEncoder False (sha256 inp)))\<rparr>)"
  by (simp add: processDigest_def Let_def)

text \<open>
  Claim C8. The digest operation on a readable file always succeeds: SHA-256 is a total
  function of the input. The text shown is the digest in hex, 64 lowercase digits;
  \<open>lastTextOutput\<close> is that text as the output field returns it, and no binary artifact
  is kept (\<open>processedData\<close> is empty). The digest of the empty input is
  e3b0c44298fc1c149afbf4c8996fb92427ae41e4649b934ca495991b7852b855.
\<close>

theorem digest_operation:
  assumes "opCombo s = ''SHA-256 Digest (file)''" and "inputFilePath s \<noteq> []"
    and "fileContent e = Some inp"
  shows "fst (onProcess c q e s) = None
    \<and> outputText (snd (onProcess c q e s)) = fromStdString q (HexEncoder False (sha256 inp))
    \<and> lastTextOutput (snd (onProcess c q e s)) =
         toPlainText q (fromStdString q (HexEncoder False (sha256 inp)))
    \<and> processedData (snd (onProcess c q e s)) = []
    \<and> lastOutputIsText (snd (onProcess c q e s))
    \<and> lastAction (snd (onProcess c q e s)) = ShaOrHmacText
    \<and> length (sha256 inp) = 32
    \<and> length (HexEncoder False (sha256 inp)) = 64
    \<and> set (HexEncoder False (sha256 inp)) \<subseteq> set ''0123456789abcdef''
    \<and> HexEncoder False (sha256 []) =
         ''e3b0c44298fc1c149afbf4c8996fb92427ae41e4649b934ca495991b7852b855''"
proof -
  have op: "onProcess c q e s = processDigest q inp (s\<lparr>progressBar := 10\<rparr>)"
    by (rule onProcess_digest [OF assms(1,3,2)])
  show ?thesis
    unfolding op processDigest_eq
    by (simp add: length_sha256 length_HexEncoder HexEncoder_lower sha256_empty_hex
        del: set_simps)
qed

text \<open>The digest operation on an empty file.\<close>

theorem digest_operation_witness:
  "opCombo digest_session = ''SHA-256 Digest (file)'' \<and> inputFilePath digest_session \<noteq> []
   \<and> fileContent empty_env = Some []
   \<and> fst (onProcess toy_cipher ascii_qt empty_env digest_session) = None
   \<and> outputText (snd (onProcess toy_cipher ascii_qt empty_env digest_session)) =
        ''e3b0c44298fc1c149afbf4c8996fb92427ae41e4649b934ca495991b7852b855''
   \<and> processedData (snd (onProcess toy_cipher ascii_qt empty_env digest_session)) = []"
proof -
  have h1: "opCombo digest_session = ''SHA-256 Digest (file)''"
    and h2: "inputFilePath digest_session \<noteq> []"
    by (simp_all add: digest_session_def hello_session_def initial_def)
  have h3: "fileContent empty_env = Some []"
    by (simp add: empty_env_def)
  from digest_operation [OF h1 h2 h3, of toy_cipher ascii_qt] h1 h2 h3
  show ?thesis by (simp add: ascii_qt_def)
qed

lemma onGenerateKey_keys:
  "keyHexEdit (onGenerateKey q rng s) = HexEncoder True (fst (GenerateBlock rng (aesKeyBytes s)))"
  "hmacKeyEdit (onGenerateKey q rng s) =
     HexEncoder True (fst (GenerateBlock (snd (GenerateBlock rng (aesKeyBytes s))) (hmacKeyBytes s)))"
  "lastGeneratedSymKeyHex (onGenerateKey q rng s) = keyHexEdit (onGenerateKey q rng s)"
  "lastGeneratedHmacKeyHex (onGenerateKey q rng s) = hmacKeyEdit (onGenerateKey q rng s)"
  "lastAction (onGenerateKey q rng s) = GeneratedKey"
  by (simp_all add: onGenerateKey_def Let_def split: prod.splits)

text \<open>
  Claim C9, as amended. Every hex encoding is a function of the bytes, has no separators
  and has twice as many characters as there are bytes. The digest (and the MAC) are
  encoded with lowercase digits. The keys produced by the key generator, as shown in the
  key fields and as written by the export of the key pair (to any non-empty path), are
  encoded with uppercase digits.
\<close>

theorem hex_encoding_at_the_boundary:
  "length (HexEncoder u bs) = 2 * length bs
   \<and> set (HexEncoder False bs) \<subseteq> set ''0123456789abcdef''
   \<and> set (HexEncoder True bs) \<subseteq> set ''0123456789ABCDEF''
   \<and> outputText (snd (processDigest q inp s)) = fromStdString q (HexEncoder False (sha256 inp))
   \<and> keyHexEdit (onGenerateKey q rng s) = HexEncoder True (fst (GenerateBlock rng (aesKeyBytes s)))
   \<and> hmacKeyEdit (onGenerateKey q rng s) =
       HexEncoder True (fst (GenerateBlock (snd (GenerateBlock rng (aesKeyBytes s))) (hmacKeyBytes s)))
   \<and> fst (onDownload q (ch # file) True (onGenerateKey q rng s)) =
       Some (ch # file,
             bytes_of_string (''symmetric_key_hex:'' @ keyHexEdit (onGenerateKey q rng s) @ [CHR 0x0A]
               @ ''hmac_key_hex:'' @ hmacKeyEdit (onGenerateKey q rng s) @ [CHR 0x0A]))"
proof -
  have dl: "fst (onDownload q (ch # file) True (onGenerateKey q rng s)) =
       Some (ch # file,
             bytes_of_string (''symmetric_key_hex:'' @ keyHexEdit (onGenerateKey q rng s) @ [CHR 0x0A]
               @ ''hmac_key_hex:'' @ hmacKeyEdit (onGenerateKey q rng s) @ [CHR 0x0A]))"
    unfolding onDownload_def onGenerateKey_keys(3,4,5) by simp
  show ?thesis
    by (intro conjI length_HexEncoder HexEncoder_lower HexEncoder_upper onGenerateKey_keys(1,2) dl)
       (simp add: processDigest_eq)
qed

text \<open>
  Claim C9 as stated fails: the key generated from 32 bytes AB is shown as 64 characters A
  and B, and A is not a lowercase hex digit.
\<close>

theorem generated_key_hex_is_uppercase_counterexample:
  "keyHexEdit (onGenerateKey ascii_qt ab_entropy (initial ascii_qt)) =
     ''ABABABABABABABABABABABABABABABABABABABABABABABABABABABABABABABAB''
   \<and> CHR ''A'' \<notin> set ''0123456789abcdef''"
  by code_simp









lemma processDecrypt_success:
  assumes "processDecrypt c q e inp s = (None, s')"
  shows "\<exists>recovered. s' = (detectText q (s\<lparr>processedData := recovered\<rparr>))
                            \<lparr>statusLabel := Status ''Decryption done'',
                             progressBar := 100,
                             lastAction := ProcessedData\<rparr>"
  using assms unfolding processDecrypt_def Let_def caught_def
  by (auto split: if_splits sum.splits)

lemma detectText_text:
  assumes "lastOutputIsText (detectText q s)"
  shows "processedData (detectText q s) \<noteq> []"
    and "lastTextOutput (detectText q s) =
           (if toUtf8 q (fromUtf8 q (processedData (detectText q s))) = processedData (detectText q s)
            then fromUtf8 q (processedData (detectText q s))
            else fromUtf16 q (processedData (detectText q s)))"
    and "outputText (detectText q s) = left q 10000 (lastTextOutput (detectText q s))"
  using assms unfolding detectText_def Let_def
  by (auto split: if_splits)

text \<open>
  Claim C10. After a decryption that succeeded and found text, \<open>lastTextOutput\<close> is the
  whole decoded string (the UTF-8 decoding of the plaintext when that encodes back to the
  plaintext, its UTF-16 decoding otherwise), the text shown is its first 10000
  characters, and a download to any non-empty path that can be written writes the UTF-8
  encoding of the whole string, whatever was shown.
\<close>

theorem decrypted_text_export:
  assumes "opCombo s = ''AES Decrypt (file)''" and "onProcess c q e s = (None, s')"
    and "lastOutputIsText s'"
  shows "lastTextOutput s' =
           (if toUtf8 q (fromUtf8 q (processedData s')) = processedData s'
            then fromUtf8 q (processedData s') else fromUtf16 q (processedData s'))
    \<and> outputText s' = left q 10000 (lastTextOutput s')
    \<and> fst (onDownload q (ch # file) True s') =
         Some (if suffix_of (ch # file) = [] then ch # file @ ''.txt'' else ch # file,
               toUtf8 q (lastTextOutput s'))"
proof -
  have ne: "inputFilePath s \<noteq> []"
    using assms(1,2) by (auto simp: onProcess_def)
  obtain inp where fc: "fileContent e = Some inp"
    using assms(1,2) ne by (cases "fileContent e") (auto simp: onProcess_def)
  have "processDecrypt c q e inp (s\<lparr>progressBar := 10\<rparr>) = (None, s')"
    using onProcess_decrypt [OF assms(1) fc ne] assms(2) by simp
  from processDecrypt_success [OF this] obtain recovered where
    s': "s' = (detectText q (s\<lparr>progressBar := 10, processedData := recovered\<rparr>))
                            \<lparr>statusLabel := Status ''Decryption done'',
                             progressBar := 100,
                             lastAction := ProcessedData\<rparr>" by auto
  let ?d = "detectText q (s\<lparr>progressBar := 10, processedData := recovered\<rparr>)"
  have t: "lastOutputIsText ?d" using assms(3) by (simp add: s')
  note dt = detectText_text [OF t]
  have 1: "lastTextOutput s' =
           (if toUtf8 q (fromUtf8 q (processedData s')) = processedData s'
            then fromUtf8 q (processedData s') else fromUtf16 q (processedData s'))"
    using dt(2) by (simp add: s')
  have 2: "outputText s' = left q 10000 (lastTextOutput s')"
    using dt(3) by (simp add: s')
  have pd: "processedData s' \<noteq> []" using dt(1) by (simp add: s')
  have la: "lastAction s' = ProcessedData" by (simp add: s')
  have 3: "fst (onDownload q (ch # file) True s') =
         Some (if suffix_of (ch # file) = [] then ch # file @ ''.txt'' else ch # file,
               toUtf8 q (lastTextOutput s'))"
    unfolding onDownload_def using pd la assms(3) by (simp add: Let_def)
  show ?thesis by (intro conjI 1 2 3)
qed

lemma decrypt_hello_run:
  "onProcess toy_cipher ascii_qt (file_env encrypted_hello) decrypt_session =
     (None, snd (onProcess toy_cipher ascii_qt (file_env encrypted_hello) decrypt_session))"
  "lastOutputIsText (snd (onProcess toy_cipher ascii_qt (file_env encrypted_hello) decrypt_session))"
  "lastTextOutput (snd (onProcess toy_cipher ascii_qt (file_env encrypted_hello) decrypt_session)) = ''hello''"
proof -
  have "fst (onProcess toy_cipher ascii_qt (file_env encrypted_hello) decrypt_session) = None"
    by code_simp
  then show "onProcess toy_cipher ascii_qt (file_env encrypted_hello) decrypt_session =
     (None, snd (onProcess toy_cipher ascii_qt (file_env encrypted_hello) decrypt_session))"
    by (metis prod.collapse)
  show "lastOutputIsText (snd (onProcess toy_cipher ascii_qt (file_env encrypted_hello) decrypt_session))"
    by code_simp
  show "lastTextOutput (snd (onProcess toy_cipher ascii_qt (file_env encrypted_hello) decrypt_session)) = ''hello''"
    by code_simp
qed

text \<open>
  The encryption of "hello" decrypted and downloaded: the file written holds "hello".
\<close>

theorem decrypted_text_export_witness:
  "opCombo decrypt_session = ''AES Decrypt (file)''
   \<and> fst (onProcess toy_cipher ascii_qt (file_env encrypted_hello) decrypt_session) = None
   \<and> lastOutputIsText (snd (onProcess toy_cipher ascii_qt (file_env encrypted_hello) decrypt_session))
   \<and> fst (onDownload ascii_qt ''out'' True
            (snd (onProcess toy_cipher ascii_qt (file_env encrypted_hello) decrypt_session))) =
        Some (''out.txt'', bytes_of_string ''hello'')"
proof -
  let ?r = "onProcess toy_cipher ascii_qt (file_env encrypted_hello) decrypt_session"
  have op: "opCombo decrypt_session = ''AES Decrypt (file)''"
    by (simp add: decrypt_session_def)
  have sf: "suffix_of ''out'' = []" by (simp add: suffix_of_def)
  have ok: "fst ?r = None" using decrypt_hello_run(1) by (metis fst_conv)
  have enc: "toUtf8 ascii_qt ''hello'' = bytes_of_string ''hello''"
    by (simp add: ascii_qt_def)
  have "fst (onDownload ascii_qt (CHR ''o'' # ''ut'') True (snd ?r)) =
         Some (if suffix_of (CHR ''o'' # ''ut'') = [] then CHR ''o'' # ''ut'' @ ''.txt''
               else CHR ''o'' # ''ut'',
               toUtf8 ascii_qt (lastTextOutput (snd ?r)))"
    using decrypted_text_export [OF op decrypt_hello_run(1,2), of "CHR ''o''" "''ut''"]
    by blast
  then have dl: "fst (onDownload ascii_qt ''out'' True (snd ?r)) =
                   Some (''out.txt'', bytes_of_string ''hello'')"
    unfolding decrypt_hello_run(3) enc using sf by simp
  show ?thesis by (intro conjI op ok decrypt_hello_run(2) dl)
qed

end
